theory Spec2Isabelle
  imports Complex_Main
begin

section \<open>The todo service of \<open>src/services/todoService.js\<close>\<close>

text \<open>
  The class \<open>TodoService\<close> keeps an array of todo records and a counter in memory and
  rewrites one JSON file on every mutation. The embedding follows the class method by
  method. What JavaScript leaves implicit is made explicit:
  \<^item> an \<open>async\<close> method that rejects (a thrown error) returns \<open>Inl\<close> of the error, one that
    resolves returns \<open>Inr\<close> of its value;
  \<^item> the object's fields and the file on disk are passed in and returned;
  \<^item> whether a call of \<open>writeFile\<close> or \<open>mkdir\<close> succeeds is the environment's choice and
    is an argument of the method that makes the call.

  Numbers: the counter \<open>nextId\<close> is a JavaScript number, a double, holding an integer. It
  is modelled by the \<open>int\<close> it holds. \<open>++\<close> adds one and rounds to the nearest double
  (\<open>round_double\<close>), which changes nothing up to \<open>2 ^ 53\<close> and leaves \<open>2 ^ 53\<close> itself where
  it is; the template literal prints all digits up to \<open>2 ^ 53\<close> and the shortest digits
  that read back as the same double beyond (\<open>Number_toString\<close>).

  Strings are lists of characters; a character stands for a code unit, and no
  definition depends on how many there are. \<open>String.prototype.toLowerCase\<close> is the
  runtime's, with the case mapping of all of Unicode: the methods that call it take it
  as the argument \<open>toLowerCase\<close>, and the theorems hold for every such function.
\<close>

subsection \<open>JSON values and the file\<close>

text \<open>
  A value as \<open>JSON.parse\<close> returns it. An object is the association list of its
  properties; a property is looked up with \<open>map_of\<close>.
\<close>

datatype json =
    JNull
  | JBool bool
  | JNum rat
  | JStr string
  | JArr "json list"
  | JObj "(string \<times> json) list"

text \<open>
  The text of a file is identified with what \<open>JSON.parse\<close> makes of it: either the parser
  rejects it, or it denotes a value. \<open>JSON.stringify\<close> of a value built from strings,
  booleans, integers, arrays and plain objects produces a text denoting that same value;
  the printer and the parser themselves are the runtime's and are not modelled further.
\<close>

datatype contents = Unparsable | Denotes json

datatype errno = ENOENT | EACCES

datatype js_error = FsError errno | SyntaxError | TypeError

text \<open>
  The node at the resolved path of the data file: missing, present but not readable (any
  error code other than \<open>ENOENT\<close>, written \<open>EACCES\<close>), or a file with its text.
\<close>

datatype node = Absent | Unreadable | File contents

text \<open>
  The world outside the object: the node of the data file, and the payloads handed to
  \<open>writeFile\<close> so far, oldest first (whether or not the write went through).
\<close>

record world =
  node :: node
  written :: "contents list"

text \<open>
  The environment's answer to one \<open>writeFile\<close> or \<open>mkdir\<close> call: it succeeds, or it fails
  with an error code and leaves the node in a state of the environment's choosing.
\<close>

datatype outcome = Succeeds | Fails errno node

definition readFile :: "world \<Rightarrow> js_error + contents" where
  "readFile w =
     (case node w of
        Absent \<Rightarrow> Inl (FsError ENOENT)
      | Unreadable \<Rightarrow> Inl (FsError EACCES)
      | File c \<Rightarrow> Inr c)"

definition writeFile :: "outcome \<Rightarrow> contents \<Rightarrow> world \<Rightarrow> (js_error + unit) \<times> world" where
  "writeFile oc payload w =
     (case oc of
        Succeeds \<Rightarrow> (Inr (), w\<lparr>node := File payload, written := written w @ [payload]\<rparr>)
      | Fails e n \<Rightarrow> (Inl (FsError e), w\<lparr>node := n, written := written w @ [payload]\<rparr>))"

definition mkdir :: "outcome \<Rightarrow> world \<Rightarrow> (js_error + unit) \<times> world" where
  "mkdir oc w =
     (case oc of
        Succeeds \<Rightarrow> (Inr (), w)
      | Fails e n \<Rightarrow> (Inl (FsError e), w\<lparr>node := n\<rparr>))"

definition JSON_parse :: "contents \<Rightarrow> js_error + json" where
  "JSON_parse c = (case c of Unparsable \<Rightarrow> Inl SyntaxError | Denotes v \<Rightarrow> Inr v)"

definition JSON_stringify :: "json \<Rightarrow> contents" where
  "JSON_stringify v = Denotes v"

text \<open>
  \<open>parsed.name\<close> for the names \<open>todos\<close> and \<open>nextId\<close>: reading a property of \<open>null\<close> throws
  a \<open>TypeError\<close>; an object gives the property's value or \<open>undefined\<close> (\<open>None\<close>); numbers,
  strings, booleans and arrays have no property of either name.
\<close>

definition get_prop :: "json \<Rightarrow> string \<Rightarrow> js_error + json option" where
  "get_prop v name =
     (case v of
        JNull \<Rightarrow> Inl TypeError
      | JObj kvs \<Rightarrow> Inr (map_of kvs name)
      | _ \<Rightarrow> Inr None)"

text \<open>\<open>Number.isInteger\<close> on a property that may be \<open>undefined\<close>.\<close>

definition Number_isInteger :: "json option \<Rightarrow> bool" where
  "Number_isInteger v = (case v of Some (JNum q) \<Rightarrow> of_int \<lfloor>q\<rfloor> = q | _ \<Rightarrow> False)"

subsection \<open>Strings\<close>

text \<open>The decimal digits of a natural number, as the template literal prints them.\<close>

definition digit_char :: "nat \<Rightarrow> char" where
  "digit_char d = ''0123456789'' ! d"

function digits :: "nat \<Rightarrow> string" where
  "digits n = (if n < 10 then [digit_char n] else digits (n div 10) @ [digit_char (n mod 10)])"
  by pat_completeness auto
termination
  by (relation "measure (\<lambda>n. n)") auto

declare digits.simps [simp del]

text \<open>
  Doubles. A natural number below \<open>2 ^ 53\<close> is a double; above, the doubles are the
  multiples of \<open>ulp\<close>, the power of two that leaves 53 bits. \<open>round_nat\<close> is the double
  nearest to a natural number, the one with the even quotient when two are equally
  near; \<open>round_double\<close> does the same on integers. (Doubles end near \<open>2 ^ 1024\<close>; adding
  one to a double never gets there.)
\<close>

function ulp :: "nat \<Rightarrow> nat" where
  "ulp m = (if m < 2 ^ 53 then 1 else 2 * ulp (m div 2))"
  by pat_completeness auto
termination
  by (relation "measure (\<lambda>m. m)") auto

declare ulp.simps [simp del]

definition round_nat :: "nat \<Rightarrow> nat" where
  "round_nat m =
     (let u = ulp m; q = m div u; r = m mod u
      in (if 2 * r < u \<or> (2 * r = u \<and> even q) then q else q + 1) * u)"

definition round_double :: "int \<Rightarrow> int" where
  "round_double x = (if x < 0 then - int (round_nat (nat (- x))) else int (round_nat (nat x)))"

text \<open>
  Printing a double \<open>v\<close> beyond \<open>2 ^ 53\<close>, after \<open>Number::toString\<close> of the language
  definition: take the least number \<open>k\<close> of digits for which some \<open>s\<close> of \<open>k\<close> digits and
  some \<open>n\<close> make \<open>s * 10 ^ (n - k)\<close> read back as \<open>v\<close>; among these the \<open>s\<close> nearest to \<open>v\<close>,
  the even one of two equally near. A candidate is the triple of \<open>s\<close>, \<open>n\<close> and the
  number \<open>s * 10 ^ (n - k)\<close>. Up to \<open>n = 21\<close> that number is printed, from there on \<open>s\<close> with
  a point after its first digit and the exponent \<open>n - 1\<close>. Seventeen digits are enough for
  every double; for a number that is no double there may be no candidate, and its own
  digits are printed.
\<close>

definition candidates :: "nat \<Rightarrow> nat \<Rightarrow> (nat \<times> nat \<times> nat) list" where
  "candidates v k =
     [(s, n, s * 10 ^ (n - k)).
        n \<leftarrow> [length (digits v), length (digits v) + 1],
        s \<leftarrow> [v div 10 ^ (n - k), v div 10 ^ (n - k) + 1],
        k \<le> n \<and> 10 ^ (k - 1) \<le> s \<and> s < 10 ^ k \<and> round_nat (s * 10 ^ (n - k)) = v]"

definition closer :: "nat \<Rightarrow> nat \<times> nat \<times> nat \<Rightarrow> nat \<times> nat \<times> nat \<Rightarrow> nat \<times> nat \<times> nat" where
  "closer v a b =
     (let da = (if snd (snd a) < v then v - snd (snd a) else snd (snd a) - v);
          db = (if snd (snd b) < v then v - snd (snd b) else snd (snd b) - v)
      in if db < da \<or> (db = da \<and> even (fst b)) then b else a)"

definition shortest :: "nat \<Rightarrow> (nat \<times> nat \<times> nat) option" where
  "shortest v =
     (case find (\<lambda>k. candidates v k \<noteq> []) [1..<18] of
        None \<Rightarrow> None
      | Some k \<Rightarrow> Some (foldl (closer v) (hd (candidates v k)) (tl (candidates v k))))"

definition exponent_form :: "nat \<Rightarrow> nat \<Rightarrow> string" where
  "exponent_form s n =
     (case digits s of
        [] \<Rightarrow> []
      | d # ds \<Rightarrow> (if ds = [] then [d] else d # CHR ''.'' # ds) @ ''e+'' @ digits (n - 1))"

definition big_string :: "nat \<Rightarrow> string" where
  "big_string v =
     (case shortest v of
        None \<Rightarrow> digits v
      | Some (s, n, m) \<Rightarrow> if n \<le> 21 then digits m else exponent_form s n)"

text \<open>
  \<open>`${x}`\<close> for a number \<open>x\<close> holding an integer. Up to \<open>2 ^ 53\<close> every integer is a double
  and its own digits are the shortest that read back as it.
\<close>

definition Number_toString :: "int \<Rightarrow> string" where
  "Number_toString x =
     (let v = nat \<bar>x\<bar>;
          str = (if v \<le> 2 ^ 53 then digits v else big_string v)
      in if x < 0 then CHR ''-'' # str else str)"

text \<open>
  One function that can stand for \<open>toLowerCase\<close> in an example: it agrees with the
  runtime's on strings of ASCII characters.
\<close>

definition ascii_lower_char :: "char \<Rightarrow> char" where
  "ascii_lower_char c =
     (case map_of (zip ''ABCDEFGHIJKLMNOPQRSTUVWXYZ'' ''abcdefghijklmnopqrstuvwxyz'') c of
        Some l \<Rightarrow> l
      | None \<Rightarrow> c)"

definition ascii_lower :: "string \<Rightarrow> string" where
  "ascii_lower s = map ascii_lower_char s"

text \<open>\<open>s.includes(q)\<close>: \<open>q\<close> occurs in \<open>s\<close> as a contiguous run.\<close>

primrec includes_str :: "string \<Rightarrow> string \<Rightarrow> bool" where
  "includes_str [] q = (q = [])"
| "includes_str (c # s) q = (take (length q) (c # s) = q \<or> includes_str s q)"

subsection \<open>The service\<close>

record todo =
  todo_id :: string
  title :: string
  completed :: bool

text \<open>
  The fields of a \<open>TodoService\<close>. The path \<open>dataFile\<close> is fixed once and for all: it is the
  path whose node the world carries. The element type is a parameter because \<open>create\<close>
  stores the parsed array as it is, whatever its elements are, while the methods read
  the elements as todo records.
\<close>

record 'a service =
  todos :: "'a list"
  nextId :: int

type_synonym state = "todo service \<times> world"

datatype reason = not_found | invalid_index

text \<open>
  The objects the methods resolve to: \<open>{ok: false, reason}\<close>, \<open>{ok: true, todo}\<close>,
  \<open>{ok: true, todo, index}\<close> and \<open>{ok: true, deleted, todos}\<close>. A \<open>todo\<close> field holds what
  \<open>find\<close> or an index read returned, which may be \<open>undefined\<close> (\<open>None\<close>).
\<close>

datatype reply =
    Failed reason
  | Done "todo option"
  | DoneAt "todo option" int
  | Removed "todo list" "todo list"

definition json_of_todo :: "todo \<Rightarrow> json" where
  "json_of_todo t =
     JObj [(''id'', JStr (todo_id t)), (''title'', JStr (title t)), (''completed'', JBool (completed t))]"

definition payload_of :: "todo list \<Rightarrow> int \<Rightarrow> json" where
  "payload_of ts n = JObj [(''todos'', JArr (map json_of_todo ts)), (''nextId'', JNum (of_int n))]"

definition saveAtomically :: "outcome \<Rightarrow> todo list \<Rightarrow> state \<Rightarrow> (js_error + unit) \<times> state" where
  "saveAtomically oc newTodos st =
     (case st of (s, w) \<Rightarrow>
        (let payload = JSON_stringify (payload_of newTodos (nextId s))
         in case writeFile oc payload w of
              (Inl e, w') \<Rightarrow> (Inl e, (s, w'))
            | (Inr u, w') \<Rightarrow> (Inr (), (s\<lparr>todos := newTodos\<rparr>, w'))))"

definition save :: "outcome \<Rightarrow> state \<Rightarrow> (js_error + unit) \<times> state" where
  "save oc st = saveAtomically oc (todos (fst st)) st"

definition list_todos :: "state \<Rightarrow> todo list" where
  "list_todos st = todos (fst st)"

text \<open>
  \<open>create\<close>. \<open>load\<close> is the body of its \<open>try\<close> block: read, parse, pick the two
  properties, construct. Everything thrown there reaches the \<open>catch\<close>, which rethrows
  unless the error's code is \<open>ENOENT\<close>, and otherwise makes the directory, constructs the
  empty store with counter 1 and saves it. The two outcomes are those of \<open>mkdir\<close> and of
  the \<open>writeFile\<close> inside \<open>save\<close>, used on the \<open>ENOENT\<close> path only.
\<close>

definition load :: "world \<Rightarrow> js_error + json service" where
  "load w =
     (case readFile w of
        Inl e \<Rightarrow> Inl e
      | Inr contents \<Rightarrow>
         (case JSON_parse contents of
            Inl e \<Rightarrow> Inl e
          | Inr parsed \<Rightarrow>
             (case get_prop parsed ''todos'' of
                Inl e \<Rightarrow> Inl e
              | Inr ptodos \<Rightarrow>
                 (let ts = (case ptodos of Some (JArr xs) \<Rightarrow> xs | _ \<Rightarrow> [])
                  in case get_prop parsed ''nextId'' of
                       Inl e \<Rightarrow> Inl e
                     | Inr pnext \<Rightarrow>
                         (let n = (if Number_isInteger pnext
                                   then (case pnext of Some (JNum q) \<Rightarrow> \<lfloor>q\<rfloor> | _ \<Rightarrow> 0)
                                   else int (length ts) + 1)
                          in Inr \<lparr>todos = ts, nextId = n\<rparr>)))))"

definition create :: "outcome \<Rightarrow> outcome \<Rightarrow> world \<Rightarrow> (js_error + json service) \<times> world" where
  "create oc_mkdir oc_write w =
     (case load w of
        Inr service \<Rightarrow> (Inr service, w)
      | Inl error \<Rightarrow>
          if error \<noteq> FsError ENOENT then (Inl error, w)
          else
            (case mkdir oc_mkdir w of
               (Inl e, w1) \<Rightarrow> (Inl e, w1)
             | (Inr u, w1) \<Rightarrow>
                 (case save oc_write (\<lparr>todos = [], nextId = 1\<rparr>, w1) of
                    (Inl e, (s, w2)) \<Rightarrow> (Inl e, w2)
                  | (Inr u, (s, w2)) \<Rightarrow>
                      (Inr \<lparr>todos = map json_of_todo (todos s), nextId = nextId s\<rparr>, w2))))"

text \<open>\<open>xs[i]\<close>: the element, or \<open>undefined\<close> outside the array.\<close>

definition elem_at :: "'a list \<Rightarrow> int \<Rightarrow> 'a option" where
  "elem_at xs i = (if 0 \<le> i \<and> i < int (length xs) then Some (xs ! nat i) else None)"

definition mint :: "int \<Rightarrow> string" where
  "mint n = ''todo-'' @ Number_toString n"

text \<open>
  \<open>add\<close>: the counter is read and incremented (\<open>this.nextId++\<close>) while the record is
  built, before the write is attempted.
\<close>

definition add :: "outcome \<Rightarrow> string \<Rightarrow> state \<Rightarrow> (js_error + todo) \<times> state" where
  "add oc ttl st =
     (case st of (s, w) \<Rightarrow>
        (let todo = \<lparr>todo_id = mint (nextId s), title = ttl, completed = False\<rparr>;
             s1 = s\<lparr>nextId := round_double (nextId s + 1)\<rparr>;
             newTodos = todos s1 @ [todo]
         in case saveAtomically oc newTodos (s1, w) of
              (Inl e, st') \<Rightarrow> (Inl e, st')
            | (Inr u, st') \<Rightarrow> (Inr todo, st')))"

definition completeById :: "outcome \<Rightarrow> string \<Rightarrow> state \<Rightarrow> (js_error + reply) \<times> state" where
  "completeById oc i st =
     (case find (\<lambda>task. todo_id task = i) (todos (fst st)) of
        None \<Rightarrow> (Inr (Failed not_found), st)
      | Some exists \<Rightarrow>
          if completed exists then (Inr (Done (Some exists)), st)
          else
            (let newTodos =
                   map (\<lambda>task. if todo_id task = i then task\<lparr>completed := True\<rparr> else task)
                     (todos (fst st))
             in case saveAtomically oc newTodos st of
                  (Inl e, st') \<Rightarrow> (Inl e, st')
                | (Inr u, st') \<Rightarrow>
                    (Inr (Done (find (\<lambda>task. todo_id task = i) (todos (fst st')))), st')))"

text \<open>
  \<open>completeByIndex\<close> on an integer \<open>index\<close>. Reading \<open>completed\<close> of \<open>undefined\<close> would
  throw a \<open>TypeError\<close>; the range check before it rules that out.
\<close>

definition completeByIndex :: "outcome \<Rightarrow> int \<Rightarrow> state \<Rightarrow> (js_error + reply) \<times> state" where
  "completeByIndex oc index st =
     (if index < 1 \<or> index > int (length (todos (fst st))) then (Inr (Failed invalid_index), st)
      else
        (case elem_at (todos (fst st)) (index - 1) of
           None \<Rightarrow> (Inl TypeError, st)
         | Some existing \<Rightarrow>
             if completed existing then (Inr (DoneAt (Some existing) index), st)
             else
               (let newTodos =
                      map (\<lambda>(task, i). if int i = index - 1 then task\<lparr>completed := True\<rparr> else task)
                        (zip (todos (fst st)) [0..<length (todos (fst st))])
                in case saveAtomically oc newTodos st of
                     (Inl e, st') \<Rightarrow> (Inl e, st')
                   | (Inr u, st') \<Rightarrow>
                       (Inr (DoneAt (elem_at (todos (fst st')) (index - 1)) index), st'))))"

definition completeByTitle ::
  "(string \<Rightarrow> string) \<Rightarrow> outcome \<Rightarrow> string \<Rightarrow> state \<Rightarrow> (js_error + reply) \<times> state" where
  "completeByTitle toLowerCase oc searchTitle st =
     (let normalizedTitle = toLowerCase searchTitle
      in case find (\<lambda>task. \<not> completed task \<and> includes_str (toLowerCase (title task)) normalizedTitle)
                (todos (fst st)) of
           None \<Rightarrow> (Inr (Failed not_found), st)
         | Some match \<Rightarrow>
             (let newTodos =
                    map (\<lambda>task. if todo_id task = todo_id match then task\<lparr>completed := True\<rparr> else task)
                      (todos (fst st))
              in case saveAtomically oc newTodos st of
                   (Inl e, st') \<Rightarrow> (Inl e, st')
                 | (Inr u, st') \<Rightarrow>
                     (Inr (Done (find (\<lambda>task. todo_id task = todo_id match) (todos (fst st')))), st')))"

definition deleteById :: "outcome \<Rightarrow> string \<Rightarrow> state \<Rightarrow> (js_error + reply) \<times> state" where
  "deleteById oc i st =
     (case find (\<lambda>task. todo_id task = i) (todos (fst st)) of
        None \<Rightarrow> (Inr (Failed not_found), st)
      | Some todo \<Rightarrow>
          (let newTodos = filter (\<lambda>task. todo_id task \<noteq> i) (todos (fst st))
           in case saveAtomically oc newTodos st of
                (Inl e, st') \<Rightarrow> (Inl e, st')
              | (Inr u, st') \<Rightarrow> (Inr (Done (Some todo)), st')))"

definition deleteCompleted :: "outcome \<Rightarrow> state \<Rightarrow> (js_error + reply) \<times> state" where
  "deleteCompleted oc st =
     (let completed_ones = filter (\<lambda>task. completed task) (todos (fst st))
      in if length completed_ones = 0 then (Inr (Removed [] (todos (fst st))), st)
         else
           (let newTodos = filter (\<lambda>task. \<not> completed task) (todos (fst st))
            in case saveAtomically oc newTodos st of
                 (Inl e, st') \<Rightarrow> (Inl e, st')
               | (Inr u, st') \<Rightarrow> (Inr (Removed completed_ones (todos (fst st'))), st')))"

subsection \<open>Reading a loaded store\<close>

text \<open>
  The methods read three properties of an array element: \<open>id\<close>, \<open>title\<close> and \<open>completed\<close>.
  An element of a loaded array is read as the todo record of these three when they
  are two strings and a boolean, as in the data model; a loaded store whose elements
  can all be read so is the store the methods work on.
\<close>

definition todo_of_json :: "json \<Rightarrow> todo option" where
  "todo_of_json v =
     (case v of
        JObj kvs \<Rightarrow>
          (case (map_of kvs ''id'', map_of kvs ''title'', map_of kvs ''completed'') of
             (Some (JStr i), Some (JStr t), Some (JBool c)) \<Rightarrow>
               Some \<lparr>todo_id = i, title = t, completed = c\<rparr>
           | _ \<Rightarrow> None)
      | _ \<Rightarrow> None)"

definition typed :: "json service \<Rightarrow> todo service option" where
  "typed svc =
     map_option (\<lambda>ts. \<lparr>todos = ts, nextId = nextId svc\<rparr>) (those (map todo_of_json (todos svc)))"

text \<open>The test that \<open>completeByTitle\<close> hands to \<open>find\<close>, under a name.\<close>

definition candidate :: "(string \<Rightarrow> string) \<Rightarrow> string \<Rightarrow> todo \<Rightarrow> bool" where
  "candidate toLowerCase searchTitle task \<longleftrightarrow>
     \<not> completed task \<and> includes_str (toLowerCase (title task)) (toLowerCase searchTitle)"

subsection \<open>Sequences of calls\<close>

text \<open>
  A caller's session: a list of method calls, each with the environment's answer to the
  write it may attempt. \<open>run\<close> makes the calls in order on one store and collects, for
  every \<open>add\<close> that resolved, the value the counter had when the call was made together
  with the record the call returned. \<open>adds\<close> counts the \<open>add\<close> calls of a session.
\<close>

datatype call =
    Add string
  | CompleteById string
  | CompleteByIndex int
  | CompleteByTitle string
  | DeleteById string
  | DeleteCompleted

fun run :: "(string \<Rightarrow> string) \<Rightarrow> (outcome \<times> call) list \<Rightarrow> state \<Rightarrow> (int \<times> todo) list \<times> state" where
  "run lc [] st = ([], st)"
| "run lc ((oc, Add ttl) # cs) st =
     (case add oc ttl st of
        (Inl e, st') \<Rightarrow> run lc cs st'
      | (Inr t, st') \<Rightarrow> (case run lc cs st' of (ms, st'') \<Rightarrow> ((nextId (fst st), t) # ms, st'')))"
| "run lc ((oc, CompleteById i) # cs) st = run lc cs (snd (completeById oc i st))"
| "run lc ((oc, CompleteByIndex i) # cs) st = run lc cs (snd (completeByIndex oc i st))"
| "run lc ((oc, CompleteByTitle q) # cs) st = run lc cs (snd (completeByTitle lc oc q st))"
| "run lc ((oc, DeleteById i) # cs) st = run lc cs (snd (deleteById oc i st))"
| "run lc ((oc, DeleteCompleted) # cs) st = run lc cs (snd (deleteCompleted oc st))"

fun adds :: "(outcome \<times> call) list \<Rightarrow> nat" where
  "adds [] = 0"
| "adds ((oc, Add ttl) # cs) = Suc (adds cs)"
| "adds (c # cs) = adds cs"

section \<open>Basic facts\<close>

subsection \<open>Writing\<close>

lemma saveAtomically_Succeeds:
  "saveAtomically Succeeds ts (s, w) =
     (Inr (), (s\<lparr>todos := ts\<rparr>,
               w\<lparr>node := File (Denotes (payload_of ts (nextId s))),
                 written := written w @ [Denotes (payload_of ts (nextId s))]\<rparr>))"
  by (simp add: saveAtomically_def writeFile_def JSON_stringify_def Let_def)

lemma saveAtomically_Fails:
  "saveAtomically (Fails e n) ts (s, w) =
     (Inl (FsError e), (s, w\<lparr>node := n, written := written w @ [Denotes (payload_of ts (nextId s))]\<rparr>))"
  by (simp add: saveAtomically_def writeFile_def JSON_stringify_def Let_def)

text \<open>
  A write that fails leaves the array, which is what \<open>list()\<close> returns, as it was. This
  holds of all six mutating methods; the five that do not touch the counter leave the
  whole object as it was.
\<close>

lemma add_failed_keeps_todos: "list_todos (snd (add (Fails e n) ttl st)) = list_todos st"
  by (cases st) (simp add: list_todos_def add_def Let_def saveAtomically_Fails)

lemma add_failed_rejects: "fst (add (Fails e n) ttl st) = Inl (FsError e)"
  by (cases st) (simp add: add_def Let_def saveAtomically_Fails)

lemma completeById_failed_keeps: "fst (snd (completeById (Fails e n) i st)) = fst st"
  by (cases st) (simp add: completeById_def Let_def saveAtomically_Fails split: option.split)

lemma completeByIndex_failed_keeps: "fst (snd (completeByIndex (Fails e n) i st)) = fst st"
  by (cases st) (simp add: completeByIndex_def Let_def saveAtomically_Fails split: option.split)

lemma completeByTitle_failed_keeps: "fst (snd (completeByTitle lc (Fails e n) q st)) = fst st"
  by (cases st) (simp add: completeByTitle_def Let_def saveAtomically_Fails split: option.split)

lemma deleteById_failed_keeps: "fst (snd (deleteById (Fails e n) i st)) = fst st"
  by (cases st) (simp add: deleteById_def Let_def saveAtomically_Fails split: option.split)

lemma deleteCompleted_failed_keeps: "fst (snd (deleteCompleted (Fails e n) st)) = fst st"
  by (cases st) (simp add: deleteCompleted_def Let_def saveAtomically_Fails)

text \<open>
  No method resolves after a write that failed: with a failing environment a method
  either rejects with the error of the write or has not called \<open>writeFile\<close> at all.
\<close>

lemma completeById_failed_rejects:
  "fst (completeById (Fails e n) i st) = Inl (FsError e) \<or> snd (completeById (Fails e n) i st) = st"
  by (cases st) (simp add: completeById_def Let_def saveAtomically_Fails split: option.split)

lemma completeByIndex_failed_rejects:
  "fst (completeByIndex (Fails e n) i st) = Inl (FsError e) \<or> snd (completeByIndex (Fails e n) i st) = st"
  by (cases st) (simp add: completeByIndex_def Let_def saveAtomically_Fails split: option.split)

lemma completeByTitle_failed_rejects:
  "fst (completeByTitle lc (Fails e n) q st) = Inl (FsError e) \<or>
   snd (completeByTitle lc (Fails e n) q st) = st"
  by (cases st) (simp add: completeByTitle_def Let_def saveAtomically_Fails split: option.split)

lemma deleteById_failed_rejects:
  "fst (deleteById (Fails e n) i st) = Inl (FsError e) \<or> snd (deleteById (Fails e n) i st) = st"
  by (cases st) (simp add: deleteById_def Let_def saveAtomically_Fails split: option.split)

lemma deleteCompleted_failed_rejects:
  "fst (deleteCompleted (Fails e n) st) = Inl (FsError e) \<or> snd (deleteCompleted (Fails e n) st) = st"
  by (cases st) (simp add: deleteCompleted_def Let_def saveAtomically_Fails)

subsection \<open>Numbers\<close>

lemma round_nat_exact: "m \<le> 2 ^ 53 \<Longrightarrow> round_nat m = m"
proof (cases "m < 2 ^ 53")
  case True
  then have "ulp m = 1" by (simp add: ulp.simps)
  then show ?thesis by (simp add: round_nat_def)
next
  case False
  moreover assume "m \<le> 2 ^ 53"
  ultimately have m: "m = 2 ^ 53" by simp
  have "ulp 4503599627370496 = 1" by (subst ulp.simps) simp
  then have "ulp 9007199254740992 = 2" by (subst ulp.simps) simp
  with m show ?thesis by (simp add: round_nat_def)
qed

lemma round_double_exact: "\<bar>x\<bar> \<le> 2 ^ 53 \<Longrightarrow> round_double x = x"
proof (cases "x < 0")
  case True
  moreover assume "\<bar>x\<bar> \<le> 2 ^ 53"
  ultimately have "nat (- x) \<le> 2 ^ 53" by (simp add: nat_le_iff)
  then have "round_nat (nat (- x)) = nat (- x)" by (rule round_nat_exact)
  with True show ?thesis by (simp add: round_double_def)
next
  case False
  moreover assume "\<bar>x\<bar> \<le> 2 ^ 53"
  ultimately have "nat x \<le> 2 ^ 53" by (simp add: nat_le_iff)
  then have "round_nat (nat x) = nat x" by (rule round_nat_exact)
  with False show ?thesis by (simp add: round_double_def)
qed

lemma increment_exact: "- (2 ^ 53) \<le> n \<Longrightarrow> n < 2 ^ 53 \<Longrightarrow> round_double (n + 1) = n + 1"
  by (rule round_double_exact) (simp add: abs_le_iff)

lemma increment_stuck: "round_double 9007199254740993 = 9007199254740992"
proof -
  have "ulp 4503599627370496 = 1" by (subst ulp.simps) simp
  then have "ulp 9007199254740993 = 2" by (subst ulp.simps) simp
  then show ?thesis by (simp add: round_double_def round_nat_def Let_def)
qed

lemma digit_char_inj: "a < 10 \<Longrightarrow> b < 10 \<Longrightarrow> digit_char a = digit_char b \<Longrightarrow> a = b"
proof -
  assume a: "a < 10" and b: "b < 10" and e: "digit_char a = digit_char b"
  have d: "distinct ''0123456789''" by simp
  have "length ''0123456789'' = 10" by simp
  with a b e d show "a = b"
    unfolding digit_char_def by (metis nth_eq_iff_index_eq)
qed

lemma digit_char_not_minus: "d < 10 \<Longrightarrow> digit_char d \<noteq> CHR ''-''"
proof -
  assume "d < 10"
  then have "digit_char d \<in> set ''0123456789''"
    unfolding digit_char_def by (intro nth_mem) simp
  then show ?thesis by auto
qed

lemma digits_not_Nil: "digits n \<noteq> []"
  by (subst digits.simps) simp

lemma digits_no_minus: "CHR ''-'' \<notin> set (digits n)"
proof (induction n rule: digits.induct)
  case (1 n)
  show ?case
  proof (cases "n < 10")
    case True
    then show ?thesis using digit_char_not_minus [of n] by (subst digits.simps) auto
  next
    case False
    have "n mod 10 < 10" by simp
    then have "digit_char (n mod 10) \<noteq> CHR ''-''" by (rule digit_char_not_minus)
    with False "1.IH" show ?thesis by (subst digits.simps) auto
  qed
qed

lemma digits_inj: "digits n = digits m \<Longrightarrow> n = m"
proof (induction n arbitrary: m rule: digits.induct)
  case (1 n)
  show ?case
  proof (cases "n < 10")
    case n: True
    show ?thesis
    proof (cases "m < 10")
      case True
      with n "1.prems" show ?thesis
        by (simp add: digits.simps [of n] digits.simps [of m] digit_char_inj)
    next
      case False
      with n "1.prems" digits_not_Nil [of "m div 10"] show ?thesis
        by (simp add: digits.simps [of n] digits.simps [of m])
    qed
  next
    case n: False
    show ?thesis
    proof (cases "m < 10")
      case True
      with n "1.prems" digits_not_Nil [of "n div 10"] show ?thesis
        by (simp add: digits.simps [of n] digits.simps [of m])
    next
      case False
      with n "1.prems" have
        e: "digits (n div 10) = digits (m div 10)" "digit_char (n mod 10) = digit_char (m mod 10)"
        by (simp_all add: digits.simps [of n] digits.simps [of m])
      from "1.IH" [OF n e(1)] have d: "n div 10 = m div 10" .
      have "n mod 10 = m mod 10" using e(2) by (intro digit_char_inj) simp_all
      with d show ?thesis by (metis div_mult_mod_eq)
    qed
  qed
qed

lemma digits_chars: "set (digits n) \<subseteq> set ''0123456789''"
proof (induction n rule: digits.induct)
  case (1 n)
  have d: "digit_char k \<in> set ''0123456789''" if "k < 10" for k
    using that unfolding digit_char_def by (intro nth_mem) simp
  show ?case
  proof (cases "n < 10")
    case True
    with d [of n] show ?thesis by (subst digits.simps) simp
  next
    case False
    have "n mod 10 < 10" by simp
    with d have "digit_char (n mod 10) \<in> set ''0123456789''" by blast
    with False "1.IH" show ?thesis by (subst digits.simps) simp
  qed
qed

lemma digits_plain:
  "CHR ''e'' \<notin> set (digits n)" "CHR ''.'' \<notin> set (digits n)" "CHR ''+'' \<notin> set (digits n)"
  using digits_chars [of n] by auto

lemma closer_cases: "closer v a b = a \<or> closer v a b = b"
  by (simp add: closer_def Let_def)

lemma foldl_closer_mem: "foldl (closer v) a bs \<in> set (a # bs)"
proof (induction bs arbitrary: a)
  case Nil
  show ?case by simp
next
  case (Cons b bs)
  from Cons.IH [of "closer v a b"] closer_cases [of v a b] show ?case by auto
qed

lemma candidates_round: "c \<in> set (candidates v k) \<Longrightarrow> round_nat (snd (snd c)) = v"
  by (auto simp: candidates_def split: if_splits)

lemma shortest_rounds:
  assumes "shortest v = Some (s, n, m)"
  shows "round_nat m = v"
proof -
  from assms obtain k where k: "candidates v k \<noteq> []"
    and c: "(s, n, m) = foldl (closer v) (hd (candidates v k)) (tl (candidates v k))"
    by (auto simp: shortest_def find_Some_iff split: option.splits)
  from foldl_closer_mem [of v "hd (candidates v k)" "tl (candidates v k)"] k c
  have "(s, n, m) \<in> set (candidates v k)" by simp
  from candidates_round [OF this] show ?thesis by simp
qed

lemma exponent_form_e: "CHR ''e'' \<in> set (exponent_form s n)"
  using digits_not_Nil [of s] by (cases "digits s") (simp_all add: exponent_form_def)

lemma exponent_form_no_minus: "CHR ''-'' \<notin> set (exponent_form s n)"
  using digits_no_minus [of s] digits_no_minus [of "n - 1"]
  by (cases "digits s") (auto simp: exponent_form_def)

lemma big_string_no_minus: "CHR ''-'' \<notin> set (big_string v)"
  using digits_no_minus exponent_form_no_minus
  by (auto simp: big_string_def split: option.splits)

lemma big_string_not_small:
  assumes v: "2 ^ 53 < v" and n: "N \<le> 2 ^ 53"
  shows "big_string v \<noteq> digits N"
proof (cases "shortest v")
  case None
  then have "big_string v = digits v" by (simp add: big_string_def)
  moreover from v n have "v \<noteq> N" by simp
  ultimately show ?thesis using digits_inj by metis
next
  case (Some c)
  obtain s k m where c: "c = (s, k, m)" by (cases c)
  show ?thesis
  proof (cases "k \<le> 21")
    case True
    with Some c have b: "big_string v = digits m" by (simp add: big_string_def)
    from Some c have r: "round_nat m = v" by (simp add: shortest_rounds)
    have "m \<noteq> N"
    proof
      assume "m = N"
      with n r round_nat_exact [of N] have "v = N" by simp
      with v n show False by simp
    qed
    with b show ?thesis using digits_inj by metis
  next
    case False
    with Some c have "big_string v = exponent_form s k" by (simp add: big_string_def)
    with exponent_form_e [of s k] digits_plain(1) [of N] show ?thesis by metis
  qed
qed

lemma Number_toString_inj:
  assumes b: "\<bar>b\<bar> \<le> 2 ^ 53" and e: "Number_toString a = Number_toString b"
  shows "a = b"
proof -
  define str where "str x = (if nat \<bar>x\<bar> \<le> 2 ^ 53 then digits (nat \<bar>x\<bar>) else big_string (nat \<bar>x\<bar>))"
    for x :: int
  have ts: "Number_toString x = (if x < 0 then CHR ''-'' # str x else str x)" for x
    by (simp add: Number_toString_def str_def Let_def)
  have nm: "CHR ''-'' \<notin> set (str x)" for x
    using digits_no_minus big_string_no_minus by (simp add: str_def)
  have ne: "str x \<noteq> []" for x
  proof (cases "nat \<bar>x\<bar> \<le> 2 ^ 53")
    case True
    then show ?thesis by (simp add: str_def digits_not_Nil)
  next
    case False
    then have "2 ^ 53 < nat \<bar>x\<bar>" by simp
    from big_string_not_small [OF this, of 0] have "big_string (nat \<bar>x\<bar>) \<noteq> digits 0" by simp
    moreover have "big_string (nat \<bar>x\<bar>) \<noteq> []"
    proof (cases "shortest (nat \<bar>x\<bar>)")
      case None
      then show ?thesis by (simp add: big_string_def digits_not_Nil)
    next
      case (Some c)
      obtain s k m where "c = (s, k, m)" by (cases c)
      with Some exponent_form_e [of s k] show ?thesis
        by (auto simp: big_string_def digits_not_Nil)
    qed
    ultimately show ?thesis using False by (simp add: str_def)
  qed
  from b have sb: "str b = digits (nat \<bar>b\<bar>)" and nb: "nat \<bar>b\<bar> \<le> 2 ^ 53"
    by (simp_all add: str_def nat_le_iff)
  have same_sign: "(a < 0) = (b < 0)"
  proof (rule ccontr)
    assume "(a < 0) \<noteq> (b < 0)"
    then consider "a < 0" "\<not> b < 0" | "\<not> a < 0" "b < 0" by blast
    then show False
    proof cases
      case 1
      with e ts [of a] ts [of b] have "CHR ''-'' # str a = str b" by simp
      then have "CHR ''-'' \<in> set (str b)" by (metis list.set_intros(1))
      with nm show False by blast
    next
      case 2
      with e ts [of a] ts [of b] have "str a = CHR ''-'' # str b" by simp
      then have "CHR ''-'' \<in> set (str a)" by (metis list.set_intros(1))
      with nm show False by blast
    qed
  qed
  with e ts [of a] ts [of b] have se: "str a = str b" by (cases "a < 0") simp_all
  have "nat \<bar>a\<bar> = nat \<bar>b\<bar>"
  proof (cases "nat \<bar>a\<bar> \<le> 2 ^ 53")
    case True
    with se sb have "digits (nat \<bar>a\<bar>) = digits (nat \<bar>b\<bar>)" by (simp add: str_def)
    then show ?thesis by (rule digits_inj)
  next
    case False
    then have "2 ^ 53 < nat \<bar>a\<bar>" by simp
    from big_string_not_small [OF this nb] se sb False show ?thesis by (simp add: str_def)
  qed
  with same_sign show ?thesis by (cases "a < 0") simp_all
qed

lemma mint_inj:
  assumes "\<bar>b\<bar> \<le> 2 ^ 53"
  shows "mint a = mint b \<longleftrightarrow> a = b"
proof
  assume "mint a = mint b"
  then have "Number_toString a = Number_toString b" by (simp add: mint_def)
  from Number_toString_inj [OF assms this] show "a = b" .
next
  assume "a = b"
  then show "mint a = mint b" by simp
qed

lemma mint_numerals: "mint 1 = ''todo-1''" "mint 2 = ''todo-2''" "mint 3 = ''todo-3''"
  "mint 4 = ''todo-4''" "mint 5 = ''todo-5''"
  by (simp_all add: mint_def Number_toString_def digits.simps digit_char_def)

lemma mint_max: "mint 9007199254740992 = ''todo-9007199254740992''"
  by (simp add: mint_def Number_toString_def digits.simps digit_char_def)

text \<open>
  What the definitions give on some numbers beyond \<open>2 ^ 53\<close>, as the runtime prints and
  rounds them: \<open>1e16\<close> is printed in full, \<open>1e21\<close> with an exponent, and \<open>2 ^ 53 + 3\<close>
  rounds up to the even neighbour.
\<close>

lemma u21: "ulp 1000000000000000000000 = 131072"
  by (simp add: ulp.simps)

lemma r21: "round_nat 1000000000000000000000 = 1000000000000000000000"
  by (simp add: round_nat_def Let_def u21)

lemma u21b: "ulp 2000000000000000000000 = 262144"
  by (simp add: ulp.simps)

lemma r21b: "round_nat 2000000000000000000000 \<noteq> 1000000000000000000000"
  by (simp add: round_nat_def Let_def u21b)

lemma u22: "ulp 10000000000000000000000 = 2097152"
  by (simp add: ulp.simps)

lemma r22: "round_nat 10000000000000000000000 \<noteq> 1000000000000000000000"
  by (simp add: round_nat_def Let_def u22)

lemma dl: "length (digits 1000000000000000000000) = 22"
  by (simp add: digits.simps)

lemma c1: "candidates 1000000000000000000000 (Suc 0) = [(1, 22, 1000000000000000000000)]"
  by (simp add: candidates_def dl r21 r21b r22)


lemma shortest_21: "shortest 1000000000000000000000 = Some (1, 22, 1000000000000000000000)"
  by (simp add: shortest_def c1 upt_conv_Cons)

lemma print_21: "Number_toString 1000000000000000000000 = ''1e+21''"
  by (simp add: Number_toString_def big_string_def shortest_21 exponent_form_def digits.simps
        digit_char_def)

lemma print_minus_21: "Number_toString (- 1000000000000000000000) = ''-1e+21''"
  by (simp add: Number_toString_def big_string_def shortest_21 exponent_form_def digits.simps
        digit_char_def)

lemma u16: "ulp 10000000000000000 = 2"
  by (simp add: ulp.simps)

lemma r16: "round_nat 10000000000000000 = 10000000000000000"
  by (simp add: round_nat_def Let_def u16)

lemma u16b: "ulp 20000000000000000 = 4"
  by (simp add: ulp.simps)

lemma r16b: "round_nat 20000000000000000 \<noteq> 10000000000000000"
  by (simp add: round_nat_def Let_def u16b)

lemma u17: "ulp 100000000000000000 = 16"
  by (simp add: ulp.simps)

lemma r17: "round_nat 100000000000000000 \<noteq> 10000000000000000"
  by (simp add: round_nat_def Let_def u17)

lemma dl16: "length (digits 10000000000000000) = 17"
  by (simp add: digits.simps)

lemma c16: "candidates 10000000000000000 (Suc 0) = [(1, 17, 10000000000000000)]"
  by (simp add: candidates_def dl16 r16 r16b r17)

lemma shortest_16: "shortest 10000000000000000 = Some (1, 17, 10000000000000000)"
  by (simp add: shortest_def c16 upt_conv_Cons)

lemma print_16: "Number_toString 10000000000000000 = ''10000000000000000''"
  by (simp add: Number_toString_def big_string_def shortest_16 digits.simps digit_char_def)

lemma round_up: "round_double 9007199254740995 = 9007199254740996"
proof -
  have "ulp 9007199254740995 = 2" by (simp add: ulp.simps)
  then have "round_nat 9007199254740995 = 9007199254740996" by (simp add: round_nat_def Let_def)
  then show ?thesis by (simp add: round_double_def)
qed

subsection \<open>The scenario of the specification\<close>

text \<open>
  Start empty; add "Buy milk" and "Walk dog"; complete position 1; complete by the title
  query "dog"; delete the completed records. The list is empty again and the counter
  stays at 3.
\<close>

lemma scenario:
  "(let st0 = (\<lparr>todos = [], nextId = 1\<rparr>, \<lparr>node = Absent, written = []\<rparr>);
        (r1, st1) = add Succeeds ''Buy milk'' st0;
        (r2, st2) = add Succeeds ''Walk dog'' st1;
        (r3, st3) = completeByIndex Succeeds 1 st2;
        (r4, st4) = completeByTitle ascii_lower Succeeds ''dog'' st3;
        (r5, st5) = deleteCompleted Succeeds st4
    in r1 = Inr \<lparr>todo_id = ''todo-1'', title = ''Buy milk'', completed = False\<rparr> \<and>
       r2 = Inr \<lparr>todo_id = ''todo-2'', title = ''Walk dog'', completed = False\<rparr> \<and>
       r3 = Inr (DoneAt (Some \<lparr>todo_id = ''todo-1'', title = ''Buy milk'', completed = True\<rparr>) 1) \<and>
       r4 = Inr (Done (Some \<lparr>todo_id = ''todo-2'', title = ''Walk dog'', completed = True\<rparr>)) \<and>
       r5 = Inr (Removed [\<lparr>todo_id = ''todo-1'', title = ''Buy milk'', completed = True\<rparr>,
                          \<lparr>todo_id = ''todo-2'', title = ''Walk dog'', completed = True\<rparr>] []) \<and>
       list_todos st5 = [] \<and> nextId (fst st5) = 3)"
  by (simp add: add_def completeByIndex_def completeByTitle_def deleteCompleted_def elem_at_def
        list_todos_def Let_def saveAtomically_Succeeds mint_numerals round_double_exact
        ascii_lower_def ascii_lower_char_def)

lemma completeById_on_empty_store:
  "completeById oc ''todo-99'' (\<lparr>todos = [], nextId = 1\<rparr>, w)
     = (Inr (Failed not_found), (\<lparr>todos = [], nextId = 1\<rparr>, w))"
  by (simp add: completeById_def)

section \<open>The properties of the specification\<close>

text \<open>
  C1. Claimed: when the write to the backing file fails, a mutating method fails and the
  in-memory state is left at its prior value. The lemmas above give this for the array
  of todos, and for the whole object in the five methods that complete or delete. \<open>add\<close>
  breaks it. Take the store with no todos and counter 1, as \<open>create\<close> leaves it on disk
  and in memory, and a write that fails and leaves the file alone: \<open>add\<close> rejects, the
  array is still empty and the file still says \<open>nextId = 1\<close>, but the counter in memory
  is 2.
\<close>

theorem add_failed_write_advances_nextId:
  "add (Fails EACCES (File (Denotes (payload_of [] 1)))) ''Buy milk''
     (\<lparr>todos = [], nextId = 1\<rparr>,
      \<lparr>node = File (Denotes (payload_of [] 1)), written = [Denotes (payload_of [] 1)]\<rparr>)
     = (Inl (FsError EACCES),
        (\<lparr>todos = [], nextId = 2\<rparr>,
         \<lparr>node = File (Denotes (payload_of [] 1)),
          written = [Denotes (payload_of [] 1),
                     Denotes (payload_of [\<lparr>todo_id = ''todo-1'', title = ''Buy milk'', completed = False\<rparr>] 2)]\<rparr>))"
  by (simp add: add_def Let_def saveAtomically_Fails mint_numerals round_double_exact)

subsection \<open>Loading\<close>

lemma load_File:
  "node w = File c \<Longrightarrow>
   load w =
     (case c of
        Unparsable \<Rightarrow> Inl SyntaxError
      | Denotes v \<Rightarrow>
          (case v of
             JNull \<Rightarrow> Inl TypeError
           | JObj kvs \<Rightarrow>
               (let ts = (case map_of kvs ''todos'' of Some (JArr xs) \<Rightarrow> xs | _ \<Rightarrow> [])
                in Inr \<lparr>todos = ts,
                        nextId = (if Number_isInteger (map_of kvs ''nextId'')
                                  then (case map_of kvs ''nextId'' of Some (JNum q) \<Rightarrow> \<lfloor>q\<rfloor> | _ \<Rightarrow> 0)
                                  else int (length ts) + 1)\<rparr>)
           | _ \<Rightarrow> Inr \<lparr>todos = [], nextId = 1\<rparr>))"
  by (simp add: load_def readFile_def JSON_parse_def get_prop_def Number_isInteger_def Let_def
      split: contents.split json.split)

lemma isInteger_iff:
  "Number_isInteger p \<longleftrightarrow> (\<exists>k. p = Some (JNum (of_int k)))"
  by (auto simp: Number_isInteger_def split: option.splits json.splits)

text \<open>
  C2. Claimed: a file that exists but is malformed (not valid JSON, or \<open>todos\<close> not an
  array) gives a store with no todos, and only a filesystem error other than "file not
  found" propagates. The code parses inside the \<open>try\<close> block and rethrows whatever is not
  \<open>ENOENT\<close>: on a file that is not valid JSON, \<open>create\<close> rejects with the parser's
  \<open>SyntaxError\<close>.
\<close>

theorem create_malformed_counterexample:
  "fst (create Succeeds Succeeds \<lparr>node = File Unparsable, written = []\<rparr>) = Inl SyntaxError"
  by (simp add: create_def load_def readFile_def JSON_parse_def)

text \<open>
  C2, amended. On a file that is not valid JSON \<open>create\<close> rejects with the \<open>SyntaxError\<close>,
  on a file holding \<open>null\<close> with a \<open>TypeError\<close>, on a path that cannot be read with the
  filesystem's error; none of them touches the file. On a file holding any other JSON
  value \<open>create\<close> returns a store whose todos are the parsed \<open>todos\<close> array when there is
  one and empty otherwise, and whose \<open>nextId\<close> is the parsed \<open>nextId\<close> when that is an
  integer and the number of todos plus one otherwise.
\<close>

theorem create_existing_file:
  "(node w = File Unparsable \<longrightarrow> create om ow w = (Inl SyntaxError, w)) \<and>
   (node w = File (Denotes JNull) \<longrightarrow> create om ow w = (Inl TypeError, w)) \<and>
   (node w = Unreadable \<longrightarrow> create om ow w = (Inl (FsError EACCES), w)) \<and>
   (node w = File (Denotes v) \<and> v \<noteq> JNull \<longrightarrow>
      (\<exists>svc p_todos p_next.
         create om ow w = (Inr svc, w) \<and>
         get_prop v ''todos'' = Inr p_todos \<and>
         get_prop v ''nextId'' = Inr p_next \<and>
         (\<forall>xs. p_todos = Some (JArr xs) \<longrightarrow> todos svc = xs) \<and>
         ((\<nexists>xs. p_todos = Some (JArr xs)) \<longrightarrow> todos svc = []) \<and>
         (\<forall>k. p_next = Some (JNum (of_int k)) \<longrightarrow> nextId svc = k) \<and>
         ((\<nexists>k. p_next = Some (JNum (of_int k))) \<longrightarrow> nextId svc = int (length (todos svc)) + 1)))"
proof (intro conjI impI)
  assume "node w = File Unparsable"
  then show "create om ow w = (Inl SyntaxError, w)"
    by (simp add: create_def load_File)
next
  assume "node w = File (Denotes JNull)"
  then show "create om ow w = (Inl TypeError, w)"
    by (simp add: create_def load_File)
next
  assume "node w = Unreadable"
  then show "create om ow w = (Inl (FsError EACCES), w)"
    by (simp add: create_def load_def readFile_def)
next
  assume a: "node w = File (Denotes v) \<and> v \<noteq> JNull"
  then obtain p_todos p_next where
    p: "get_prop v ''todos'' = Inr p_todos" "get_prop v ''nextId'' = Inr p_next"
    by (cases v) (simp_all add: get_prop_def)
  define ts where "ts = (case p_todos of Some (JArr xs) \<Rightarrow> xs | _ \<Rightarrow> [])"
  define n where "n = (if Number_isInteger p_next
                       then (case p_next of Some (JNum q) \<Rightarrow> \<lfloor>q\<rfloor> | _ \<Rightarrow> 0)
                       else int (length ts) + 1)"
  from a p have l: "load w = Inr \<lparr>todos = ts, nextId = n\<rparr>"
    by (simp add: load_def readFile_def JSON_parse_def Let_def ts_def n_def)
  have c: "create om ow w = (Inr \<lparr>todos = ts, nextId = n\<rparr>, w)"
    by (simp add: create_def l)
  have t1: "\<forall>xs. p_todos = Some (JArr xs) \<longrightarrow> ts = xs"
    by (simp add: ts_def)
  have t2: "(\<nexists>xs. p_todos = Some (JArr xs)) \<longrightarrow> ts = []"
    by (auto simp: ts_def split: option.splits json.splits)
  have n1: "\<forall>k. p_next = Some (JNum (of_int k)) \<longrightarrow> n = k"
    by (auto simp: n_def Number_isInteger_def)
  have n2: "(\<nexists>k. p_next = Some (JNum (of_int k))) \<longrightarrow> n = int (length ts) + 1"
    by (simp add: n_def isInteger_iff)
  show "\<exists>svc p_todos p_next.
         create om ow w = (Inr svc, w) \<and>
         get_prop v ''todos'' = Inr p_todos \<and>
         get_prop v ''nextId'' = Inr p_next \<and>
         (\<forall>xs. p_todos = Some (JArr xs) \<longrightarrow> todos svc = xs) \<and>
         ((\<nexists>xs. p_todos = Some (JArr xs)) \<longrightarrow> todos svc = []) \<and>
         (\<forall>k. p_next = Some (JNum (of_int k)) \<longrightarrow> nextId svc = k) \<and>
         ((\<nexists>k. p_next = Some (JNum (of_int k))) \<longrightarrow> nextId svc = int (length (todos svc)) + 1)"
    using c p t1 t2 n1 n2 by (intro exI[of _ "\<lparr>todos = ts, nextId = n\<rparr>"] exI[of _ p_todos] exI[of _ p_next]) simp
qed

theorem create_existing_file_witness:
  "fst (create Succeeds Succeeds
     \<lparr>node = File (Denotes (JObj [(''todos'', JArr [JStr ''a'', JNull]), (''nextId'', JStr ''7'')])),
      written = []\<rparr>)
     = Inr \<lparr>todos = [JStr ''a'', JNull], nextId = 3\<rparr> \<and>
   fst (create Succeeds Succeeds \<lparr>node = File (Denotes (JNum 5)), written = []\<rparr>)
     = Inr \<lparr>todos = [], nextId = 1\<rparr> \<and>
   fst (create Succeeds Succeeds \<lparr>node = File (Denotes JNull), written = []\<rparr>) = Inl TypeError \<and>
   fst (create Succeeds Succeeds \<lparr>node = Unreadable, written = []\<rparr>) = Inl (FsError EACCES)"
  using
    create_existing_file [of
      "\<lparr>node = File (Denotes (JObj [(''todos'', JArr [JStr ''a'', JNull]), (''nextId'', JStr ''7'')])),
        written = []\<rparr>"
      Succeeds Succeeds "JObj [(''todos'', JArr [JStr ''a'', JNull]), (''nextId'', JStr ''7'')]"]
    create_existing_file [of "\<lparr>node = File (Denotes (JNum 5)), written = []\<rparr>" Succeeds Succeeds "JNum 5"]
    create_existing_file [of "\<lparr>node = File (Denotes JNull), written = []\<rparr>" Succeeds Succeeds JNull]
    create_existing_file [of "\<lparr>node = Unreadable, written = []\<rparr>" Succeeds Succeeds JNull]
  by (auto simp: get_prop_def)

subsection \<open>Identifiers\<close>

lemma add_nextId: "nextId (fst (snd (add oc ttl st))) = round_double (nextId (fst st) + 1)"
  by (cases st, cases oc) (simp_all add: add_def Let_def saveAtomically_Succeeds saveAtomically_Fails)

lemma add_returns: "add oc ttl st = (Inr t, st') \<Longrightarrow>
    t = \<lparr>todo_id = mint (nextId (fst st)), title = ttl, completed = False\<rparr>"
  by (cases st, cases oc) (auto simp: add_def Let_def saveAtomically_Succeeds saveAtomically_Fails)

lemma completeById_nextId: "nextId (fst (snd (completeById oc i st))) = nextId (fst st)"
  by (cases st, cases oc)
     (simp_all add: completeById_def Let_def saveAtomically_Succeeds saveAtomically_Fails split: option.split)

lemma completeByIndex_nextId: "nextId (fst (snd (completeByIndex oc i st))) = nextId (fst st)"
  by (cases st, cases oc)
     (simp_all add: completeByIndex_def Let_def saveAtomically_Succeeds saveAtomically_Fails split: option.split)

lemma completeByTitle_nextId: "nextId (fst (snd (completeByTitle lc oc q st))) = nextId (fst st)"
  by (cases st, cases oc)
     (simp_all add: completeByTitle_def Let_def saveAtomically_Succeeds saveAtomically_Fails split: option.split)

lemma deleteById_nextId: "nextId (fst (snd (deleteById oc i st))) = nextId (fst st)"
  by (cases st, cases oc)
     (simp_all add: deleteById_def Let_def saveAtomically_Succeeds saveAtomically_Fails split: option.split)

lemma deleteCompleted_nextId: "nextId (fst (snd (deleteCompleted oc st))) = nextId (fst st)"
  by (cases st, cases oc)
     (simp_all add: deleteCompleted_def Let_def saveAtomically_Succeeds saveAtomically_Fails)

text \<open>
  While the counter stays where doubles count exactly, a session moves it up by one for
  each \<open>add\<close>, and each \<open>add\<close> that resolves has minted the id of the counter's value.
\<close>

lemma run_minted:
  "run lc cs st = (ms, st') \<Longrightarrow> - (2 ^ 53) \<le> nextId (fst st) \<Longrightarrow>
   nextId (fst st) + int (adds cs) \<le> 2 ^ 53 \<Longrightarrow>
     nextId (fst st) + int (adds cs) = nextId (fst st') \<and>
     sorted_wrt (<) (map fst ms) \<and>
     (\<forall>(n, t) \<in> set ms. nextId (fst st) \<le> n \<and> n < nextId (fst st') \<and> todo_id t = mint n)"
proof (induction lc cs st arbitrary: ms st' rule: run.induct)
  case (1 lc st)
  then show ?case by simp
next
  case (2 lc oc ttl cs st)
  obtain r st1 where a: "add oc ttl st = (r, st1)" by (cases "add oc ttl st")
  from "2.prems"(2,3) have "nextId (fst st) < 2 ^ 53" by simp
  with "2.prems"(2) have "round_double (nextId (fst st) + 1) = nextId (fst st) + 1"
    by (rule increment_exact)
  with add_nextId [of oc ttl st] a have n1: "nextId (fst st1) = nextId (fst st) + 1"
    by simp
  from n1 "2.prems"(2,3) have b1: "- (2 ^ 53) \<le> nextId (fst st1)"
    and b2: "nextId (fst st1) + int (adds cs) \<le> 2 ^ 53"
    by simp_all
  show ?case
  proof (cases r)
    case (Inl e)
    with a "2.prems"(1) have "run lc cs st1 = (ms, st')" by simp
    from "2.IH"(1) [OF a [symmetric] Inl this b1 b2] n1 show ?thesis by fastforce
  next
    case (Inr t)
    obtain ms1 st2 where r1: "run lc cs st1 = (ms1, st2)" by (cases "run lc cs st1")
    with a Inr "2.prems"(1) have ms: "ms = (nextId (fst st), t) # ms1" and st2: "st2 = st'"
      by simp_all
    from "2.IH"(2) [OF a [symmetric] Inr r1 b1 b2]
    have ih: "nextId (fst st1) + int (adds cs) = nextId (fst st2)" "sorted_wrt (<) (map fst ms1)"
      "\<forall>(n, t) \<in> set ms1. nextId (fst st1) \<le> n \<and> n < nextId (fst st2) \<and> todo_id t = mint n"
      by auto
    have t: "todo_id t = mint (nextId (fst st))"
      using add_returns a Inr by fastforce
    from ih n1 t show ?thesis unfolding ms st2 [symmetric] by fastforce
  qed
next
  case (3 lc oc i cs st)
  then show ?case using completeById_nextId [of oc i st] by simp
next
  case (4 lc oc i cs st)
  then show ?case using completeByIndex_nextId [of oc i st] by simp
next
  case (5 lc oc q cs st)
  then show ?case using completeByTitle_nextId [of lc oc q st] by simp
next
  case (6 lc oc i cs st)
  then show ?case using deleteById_nextId [of oc i st] by simp
next
  case (7 lc oc cs st)
  then show ?case using deleteCompleted_nextId [of oc st] by simp
qed

text \<open>
  C3. Claimed: in every sequence of \<open>add\<close> calls on a store the returned ids are
  pairwise distinct, their numbers strictly increase, and the counter ends above all of
  them. The counter is a double: \<open>create\<close> takes \<open>nextId = 9007199254740992\<close>, which is
  \<open>2 ^ 53\<close>, from a file, and there \<open>++\<close> rounds back to the same value, so two \<open>add\<close>s in a
  row return the same id.
\<close>

theorem add_ids_repeat_counterexample:
  "fst (create Succeeds Succeeds
     \<lparr>node = File (Denotes (JObj [(''todos'', JArr []), (''nextId'', JNum 9007199254740992)])),
      written = []\<rparr>)
     = Inr \<lparr>todos = [], nextId = 9007199254740992\<rparr> \<and>
   map (todo_id \<circ> snd)
     (fst (run ascii_lower [(Succeeds, Add ''a''), (Succeeds, Add ''b'')]
        (\<lparr>todos = [], nextId = 9007199254740992\<rparr>, \<lparr>node = Absent, written = []\<rparr>)))
     = [''todo-9007199254740992'', ''todo-9007199254740992'']"
proof -
  have "load \<lparr>node = File (Denotes (JObj [(''todos'', JArr []), (''nextId'', JNum 9007199254740992)])),
              written = []\<rparr>
        = Inr \<lparr>todos = [], nextId = 9007199254740992\<rparr>"
    by (simp add: load_File Number_isInteger_def Let_def)
  then have a: "fst (create Succeeds Succeeds
     \<lparr>node = File (Denotes (JObj [(''todos'', JArr []), (''nextId'', JNum 9007199254740992)])),
      written = []\<rparr>)
     = Inr \<lparr>todos = [], nextId = 9007199254740992\<rparr>"
    by (simp add: create_def)
  have b: "map (todo_id \<circ> snd)
     (fst (run ascii_lower [(Succeeds, Add ''a''), (Succeeds, Add ''b'')]
        (\<lparr>todos = [], nextId = 9007199254740992\<rparr>, \<lparr>node = Absent, written = []\<rparr>)))
     = [''todo-9007199254740992'', ''todo-9007199254740992'']"
    by (simp add: add_def Let_def saveAtomically_Succeeds mint_max increment_stuck)
  from a b show ?thesis by blast
qed

text \<open>
  C3, amended. Take any session on a store, whatever else is called between the \<open>add\<close>s
  and whichever writes fail, in which the counter starts at \<open>- 2 ^ 53\<close> or above and
  the number of \<open>add\<close> calls takes it no further than \<open>2 ^ 53\<close>. Then every record an
  \<open>add\<close> returns has the id \<open>todo-N\<close> for the value \<open>N\<close> of the counter when the call was
  made; these values strictly increase in call order; the returned ids are pairwise
  distinct; and the counter at the end is strictly greater than each of them (and the
  counter at the start is not). Since this holds of every such session, it holds after
  each mint.
\<close>

theorem add_ids_fresh:
  assumes "run lc cs st = (ms, st')"
    and "- (2 ^ 53) \<le> nextId (fst st)"
    and "nextId (fst st) + int (adds cs) \<le> 2 ^ 53"
  shows "(\<forall>(n, t) \<in> set ms. todo_id t = ''todo-'' @ Number_toString n) \<and>
         sorted_wrt (<) (map fst ms) \<and>
         distinct (map (todo_id \<circ> snd) ms) \<and>
         (\<forall>(n, t) \<in> set ms. nextId (fst st) \<le> n \<and> n < nextId (fst st'))"
proof -
  from run_minted [OF assms] have
    f: "nextId (fst st) + int (adds cs) = nextId (fst st')" and
    s: "sorted_wrt (<) (map fst ms)" and
    m: "\<forall>(n, t) \<in> set ms. nextId (fst st) \<le> n \<and> n < nextId (fst st') \<and> todo_id t = mint n"
    by simp_all
  from m have ids: "map (todo_id \<circ> snd) ms = map mint (map fst ms)"
    by (induction ms) auto
  from m f assms(2,3) have r: "\<forall>n \<in> set (map fst ms). \<bar>n\<bar> \<le> 2 ^ 53"
    by fastforce
  have "inj_on mint (set (map fst ms))"
  proof (rule inj_onI)
    fix a b
    assume "a \<in> set (map fst ms)" "b \<in> set (map fst ms)" "mint a = mint b"
    with r mint_inj [of b a] show "a = b" by blast
  qed
  moreover from s have "distinct (map fst ms)"
    by (simp add: strict_sorted_iff)
  ultimately have "distinct (map mint (map fst ms))"
    by (simp only: distinct_map)
  then have d: "distinct (map (todo_id \<circ> snd) ms)"
    by (simp only: ids)
  from m have "\<forall>(n, t) \<in> set ms. todo_id t = ''todo-'' @ Number_toString n"
    by (auto simp: mint_def)
  with s d m show ?thesis by fastforce
qed

theorem add_ids_fresh_witness:
  "fst (run ascii_lower [(Succeeds, Add ''a''), (Succeeds, DeleteById ''todo-1''),
             (Fails EACCES Unreadable, Add ''b''), (Succeeds, Add ''c'')]
          (\<lparr>todos = [], nextId = 1\<rparr>, \<lparr>node = Absent, written = []\<rparr>))
     = [(1, \<lparr>todo_id = ''todo-1'', title = ''a'', completed = False\<rparr>),
        (3, \<lparr>todo_id = ''todo-3'', title = ''c'', completed = False\<rparr>)] \<and>
   nextId (fst (snd (run ascii_lower [(Succeeds, Add ''a''), (Succeeds, DeleteById ''todo-1''),
             (Fails EACCES Unreadable, Add ''b''), (Succeeds, Add ''c'')]
          (\<lparr>todos = [], nextId = 1\<rparr>, \<lparr>node = Absent, written = []\<rparr>)))) = 4 \<and>
   distinct [''todo-1'', ''todo-3'']"
proof -
  let ?cs = "[(Succeeds, Add ''a''), (Succeeds, DeleteById ''todo-1''),
              (Fails EACCES Unreadable, Add ''b''), (Succeeds, Add ''c'')]"
  let ?st = "(\<lparr>todos = [], nextId = 1\<rparr>, \<lparr>node = Absent, written = []\<rparr>) :: state"
  have r: "run ascii_lower ?cs ?st = (fst (run ascii_lower ?cs ?st), snd (run ascii_lower ?cs ?st))"
    by simp
  have lo: "- (2 ^ 53) \<le> nextId (fst ?st)" by simp
  have hi: "nextId (fst ?st) + int (adds ?cs) \<le> 2 ^ 53" by simp
  have v: "fst (run ascii_lower ?cs ?st)
     = [(1, \<lparr>todo_id = ''todo-1'', title = ''a'', completed = False\<rparr>),
        (3, \<lparr>todo_id = ''todo-3'', title = ''c'', completed = False\<rparr>)]"
    by (simp add: add_def deleteById_def Let_def saveAtomically_Succeeds saveAtomically_Fails
          mint_numerals round_double_exact)
  have n: "nextId (fst (snd (run ascii_lower ?cs ?st))) = 4"
    by (simp add: add_def deleteById_def Let_def saveAtomically_Succeeds saveAtomically_Fails
          mint_numerals round_double_exact)
  from add_ids_fresh [OF r lo hi] have "distinct (map (todo_id \<circ> snd) (fst (run ascii_lower ?cs ?st)))"
    by blast
  then have "distinct [''todo-1'', ''todo-3'']"
    by (simp only: v) simp
  with v n show ?thesis by blast
qed

subsection \<open>Completing by id\<close>

lemma find_mark_id:
  "find (\<lambda>task. todo_id task = i)
     (map (\<lambda>task. if todo_id task = i then task\<lparr>completed := True\<rparr> else task) ts)
   = map_option (\<lambda>task. task\<lparr>completed := True\<rparr>) (find (\<lambda>task. todo_id task = i) ts)"
  by (induction ts) simp_all

lemma find_id_Some: "find (\<lambda>task. todo_id task = i) ts = Some t \<Longrightarrow> todo_id t = i \<and> t \<in> set ts"
  by (induction ts) (auto split: if_splits)

lemma completeById_done:
  assumes "find (\<lambda>task. todo_id task = i) (todos (fst st)) = Some t" "completed t"
  shows "completeById oc i st = (Inr (Done (Some t)), st)"
  using assms by (simp add: completeById_def)

lemma completeById_fresh:
  assumes "find (\<lambda>task. todo_id task = i) (todos s) = Some t" "\<not> completed t"
  shows "completeById Succeeds i (s, w) =
     (Inr (Done (Some (t\<lparr>completed := True\<rparr>))),
      (s\<lparr>todos := map (\<lambda>task. if todo_id task = i then task\<lparr>completed := True\<rparr> else task) (todos s)\<rparr>,
       w\<lparr>node := File (Denotes (payload_of
              (map (\<lambda>task. if todo_id task = i then task\<lparr>completed := True\<rparr> else task) (todos s)) (nextId s))),
         written := written w @ [Denotes (payload_of
              (map (\<lambda>task. if todo_id task = i then task\<lparr>completed := True\<rparr> else task) (todos s)) (nextId s))]\<rparr>))"
  using assms by (simp add: completeById_def Let_def saveAtomically_Succeeds find_mark_id)

lemma completeById_failing:
  assumes "find (\<lambda>task. todo_id task = i) (todos (fst st)) = Some t" "\<not> completed t"
  shows "fst (completeById (Fails e n) i st) = Inl (FsError e)"
  using assms by (cases st) (simp add: completeById_def Let_def saveAtomically_Fails)

lemma completeById_present:
  assumes f: "find (\<lambda>task. todo_id task = i) (todos (fst st)) = Some t"
  shows "fst (completeById Succeeds i st) = Inr (Done (Some (t\<lparr>completed := True\<rparr>)))"
proof (cases "completed t")
  case True
  then have "t\<lparr>completed := True\<rparr> = t" by simp
  with completeById_done [OF f True, of Succeeds] show ?thesis by simp
next
  case False
  obtain s w where st: "st = (s, w)" by (cases st)
  from f have "find (\<lambda>task. todo_id task = i) (todos s) = Some t" by (simp add: st)
  from completeById_fresh [OF this False, of w] show ?thesis by (simp add: st)
qed

lemma completeById_again:
  assumes c: "completeById oc i st = (Inr (Done r), st1)"
  shows "(\<exists>t'. r = Some t' \<and> todo_id t' = i \<and> completed t') \<and>
         completeById oc' i st1 = (Inr (Done r), st1)"
proof -
  obtain s w where st: "st = (s, w)" by (cases st)
  from c obtain t where f: "find (\<lambda>task. todo_id task = i) (todos (fst st)) = Some t"
    by (cases "find (\<lambda>task. todo_id task = i) (todos (fst st))") (auto simp: completeById_def)
  have "\<exists>t'. find (\<lambda>task. todo_id task = i) (todos (fst st1)) = Some t' \<and> completed t' \<and> r = Some t'"
  proof (cases "completed t")
    case True
    from completeById_done [OF f True, of oc] c have "r = Some t" "st1 = st" by simp_all
    with f True show ?thesis by blast
  next
    case False
    show ?thesis
    proof (cases oc)
      case Succeeds
      from f have fs: "find (\<lambda>task. todo_id task = i) (todos s) = Some t"
        by (simp add: st)
      from c have "completeById Succeeds i (s, w) = (Inr (Done r), st1)"
        by (simp only: st Succeeds)
      then have r: "r = Some (t\<lparr>completed := True\<rparr>)" and
        t1: "todos (fst st1) =
               map (\<lambda>task. if todo_id task = i then task\<lparr>completed := True\<rparr> else task) (todos s)"
        by (auto simp: completeById_fresh [OF fs False])
      show ?thesis
        by (simp add: r t1 find_mark_id fs)
    next
      case (Fails e n)
      with completeById_failing [OF f False, of e n] c show ?thesis by simp
    qed
  qed
  then obtain t' where t': "find (\<lambda>task. todo_id task = i) (todos (fst st1)) = Some t'"
    "completed t'" "r = Some t'" by blast
  from t'(1) have "todo_id t' = i" by (rule find_id_Some [THEN conjunct1])
  moreover from completeById_done [OF t'(1) t'(2)] have "completeById oc' i st1 = (Inr (Done r), st1)"
    by (simp only: t'(3))
  ultimately show ?thesis
    using t' by blast
qed

text \<open>
  C4. \<open>completeById\<close> is idempotent. When the record that \<open>find\<close> returns for the id is
  already completed, the call resolves with that very record and changes neither the
  object nor the world, whatever the environment would have answered to a write: no
  write is attempted. A record found for the id is returned completed when the write
  goes through. And whenever a call has resolved with a record, a second call with the
  same id on the resulting store resolves with the same record, which is completed,
  again without touching the object or the world.
\<close>

theorem completeById_idempotent:
  "(find (\<lambda>task. todo_id task = i) (todos (fst st)) = Some t \<and> completed t \<longrightarrow>
      completeById oc i st = (Inr (Done (Some t)), st) \<and>
      written (snd (snd (completeById oc i st))) = written (snd st)) \<and>
   (find (\<lambda>task. todo_id task = i) (todos (fst st)) = Some t \<longrightarrow>
      fst (completeById Succeeds i st) = Inr (Done (Some (t\<lparr>completed := True\<rparr>)))) \<and>
   (completeById oc i st = (Inr (Done r), st1) \<longrightarrow>
      (\<exists>t'. r = Some t' \<and> todo_id t' = i \<and> completed t') \<and>
      completeById oc' i st1 = (Inr (Done r), st1) \<and>
      written (snd (snd (completeById oc' i st1))) = written (snd st1))"
  using completeById_done [of i st t oc] completeById_present [of i st t]
    completeById_again [of oc i st r st1 oc']
  by simp

theorem completeById_idempotent_witness:
  "completeById Succeeds ''todo-1''
     (\<lparr>todos = [\<lparr>todo_id = ''todo-1'', title = ''Buy milk'', completed = False\<rparr>], nextId = 2\<rparr>,
      \<lparr>node = Absent, written = []\<rparr>)
   = (Inr (Done (Some \<lparr>todo_id = ''todo-1'', title = ''Buy milk'', completed = True\<rparr>)),
      (\<lparr>todos = [\<lparr>todo_id = ''todo-1'', title = ''Buy milk'', completed = True\<rparr>], nextId = 2\<rparr>,
       \<lparr>node = File (Denotes (payload_of [\<lparr>todo_id = ''todo-1'', title = ''Buy milk'', completed = True\<rparr>] 2)),
        written = [Denotes (payload_of [\<lparr>todo_id = ''todo-1'', title = ''Buy milk'', completed = True\<rparr>] 2)]\<rparr>)) \<and>
   completeById (Fails EACCES Unreadable) ''todo-1''
     (\<lparr>todos = [\<lparr>todo_id = ''todo-1'', title = ''Buy milk'', completed = True\<rparr>], nextId = 2\<rparr>,
      \<lparr>node = File (Denotes (payload_of [\<lparr>todo_id = ''todo-1'', title = ''Buy milk'', completed = True\<rparr>] 2)),
       written = [Denotes (payload_of [\<lparr>todo_id = ''todo-1'', title = ''Buy milk'', completed = True\<rparr>] 2)]\<rparr>)
   = (Inr (Done (Some \<lparr>todo_id = ''todo-1'', title = ''Buy milk'', completed = True\<rparr>)),
      (\<lparr>todos = [\<lparr>todo_id = ''todo-1'', title = ''Buy milk'', completed = True\<rparr>], nextId = 2\<rparr>,
       \<lparr>node = File (Denotes (payload_of [\<lparr>todo_id = ''todo-1'', title = ''Buy milk'', completed = True\<rparr>] 2)),
        written = [Denotes (payload_of [\<lparr>todo_id = ''todo-1'', title = ''Buy milk'', completed = True\<rparr>] 2)]\<rparr>))"
proof -
  let ?t = "\<lparr>todo_id = ''todo-1'', title = ''Buy milk'', completed = False\<rparr>"
  let ?t' = "\<lparr>todo_id = ''todo-1'', title = ''Buy milk'', completed = True\<rparr>"
  let ?st = "(\<lparr>todos = [?t], nextId = 2\<rparr>, \<lparr>node = Absent, written = []\<rparr>) :: state"
  let ?st1 = "(\<lparr>todos = [?t'], nextId = 2\<rparr>,
       \<lparr>node = File (Denotes (payload_of [?t'] 2)), written = [Denotes (payload_of [?t'] 2)]\<rparr>) :: state"
  have first: "completeById Succeeds ''todo-1'' ?st = (Inr (Done (Some ?t')), ?st1)"
    by (simp add: completeById_def Let_def saveAtomically_Succeeds)
  from completeById_idempotent [of "''todo-1''" ?st ?t Succeeds "Some ?t'" ?st1 "Fails EACCES Unreadable"] first
  have "completeById (Fails EACCES Unreadable) ''todo-1'' ?st1 = (Inr (Done (Some ?t')), ?st1)"
    by blast
  with first show ?thesis by blast
qed


subsection \<open>Completing by position\<close>


lemma mark_id_distinct:
  assumes "distinct (map todo_id ts)" "k < length ts"
  shows "map (\<lambda>task. if todo_id task = todo_id (ts ! k) then task\<lparr>completed := True\<rparr> else task) ts
         = ts[k := (ts ! k)\<lparr>completed := True\<rparr>]"
proof (intro nth_equalityI)
  show "length (map (\<lambda>task. if todo_id task = todo_id (ts ! k) then task\<lparr>completed := True\<rparr> else task) ts)
        = length (ts[k := (ts ! k)\<lparr>completed := True\<rparr>])"
    by simp
next
  fix j
  assume "j < length (map (\<lambda>task. if todo_id task = todo_id (ts ! k) then task\<lparr>completed := True\<rparr> else task) ts)"
  then have j: "j < length ts" by simp
  have "todo_id (ts ! j) = todo_id (ts ! k) \<longleftrightarrow> j = k"
    using assms j nth_eq_iff_index_eq [of "map todo_id ts" j k] by simp
  with j assms(2)
  show "map (\<lambda>task. if todo_id task = todo_id (ts ! k) then task\<lparr>completed := True\<rparr> else task) ts ! j
        = ts[k := (ts ! k)\<lparr>completed := True\<rparr>] ! j"
    by (simp add: nth_list_update)
qed

lemma find_id_distinct:
  assumes "distinct (map todo_id ts)" "k < length ts"
  shows "find (\<lambda>task. todo_id task = todo_id (ts ! k)) ts = Some (ts ! k)"
proof -
  have "\<forall>j<k. todo_id (ts ! j) \<noteq> todo_id (ts ! k)"
  proof (intro allI impI)
    fix j assume "j < k"
    with assms nth_eq_iff_index_eq [of "map todo_id ts" j k]
    show "todo_id (ts ! j) \<noteq> todo_id (ts ! k)" by simp
  qed
  with assms(2) show ?thesis
    by (subst find_Some_iff) blast
qed











subsection \<open>Completing by title\<close>

lemma includes_str_iff: "includes_str s q \<longleftrightarrow> (\<exists>p r. s = p @ q @ r)"
proof (induction s)
  case Nil
  show ?case by simp
next
  case (Cons c s)
  show ?case
  proof
    assume "includes_str (c # s) q"
    then consider "take (length q) (c # s) = q" | "includes_str s q" by auto
    then show "\<exists>p r. c # s = p @ q @ r"
    proof cases
      case 1
      then have "c # s = [] @ q @ drop (length q) (c # s)"
        by (metis append_Nil append_take_drop_id)
      then show ?thesis by blast
    next
      case 2
      with Cons.IH obtain p r where "s = p @ q @ r" by blast
      then have "c # s = (c # p) @ q @ r" by simp
      then show ?thesis by blast
    qed
  next
    assume "\<exists>p r. c # s = p @ q @ r"
    then obtain p r where e: "c # s = p @ q @ r" by blast
    show "includes_str (c # s) q"
    proof (cases p)
      case Nil
      with e have "take (length q) (c # s) = q" by simp
      then show ?thesis by simp
    next
      case (Cons a p')
      with e have "s = p' @ q @ r" by simp
      with Cons.IH show ?thesis by auto
    qed
  qed
qed

lemma find_first:
  assumes "k < length ts" "P (ts ! k)" "\<forall>j<k. \<not> P (ts ! j)"
  shows "find P ts = Some (ts ! k)"
  using assms by (subst find_Some_iff) blast

lemma filter_first:
  assumes k: "k < length ts" and p: "P (ts ! k)" and b: "\<forall>j<k. \<not> P (ts ! j)" and x: "\<not> P x"
  shows "filter P ts = ts ! k # filter P (drop (Suc k) ts)"
    and "filter P (ts[k := x]) = filter P (drop (Suc k) ts)"
proof -
  have "\<forall>y \<in> set (take k ts). \<not> P y"
  proof
    fix y assume "y \<in> set (take k ts)"
    then obtain j where "j < length (take k ts)" "take k ts ! j = y"
      by (auto simp: in_set_conv_nth)
    with k b show "\<not> P y" by auto
  qed
  then have e: "filter P (take k ts) = []" by (simp add: filter_empty_conv)
  have "filter P ts = filter P (take k ts @ ts ! k # drop (Suc k) ts)"
    using k by (simp add: id_take_nth_drop [symmetric])
  with e p show "filter P ts = ts ! k # filter P (drop (Suc k) ts)" by simp
  have "filter P (ts[k := x]) = filter P (take k ts @ x # drop (Suc k) ts)"
    using k by (simp add: upd_conv_take_nth_drop)
  with e x show "filter P (ts[k := x]) = filter P (drop (Suc k) ts)" by simp
qed

lemma find_id_marked:
  assumes "distinct (map todo_id ts)" "k < length ts"
  shows "find (\<lambda>task. todo_id task = todo_id (ts ! k)) (ts[k := (ts ! k)\<lparr>completed := True\<rparr>])
         = Some ((ts ! k)\<lparr>completed := True\<rparr>)"
proof -
  have "map todo_id (ts[k := (ts ! k)\<lparr>completed := True\<rparr>]) = map todo_id ts"
    using assms(2) by (intro nth_equalityI) (simp_all add: nth_list_update)
  with assms(1) have "distinct (map todo_id (ts[k := (ts ! k)\<lparr>completed := True\<rparr>]))"
    by simp
  from find_id_distinct [OF this, of k] assms(2) show ?thesis by simp
qed

lemma find_mark_first:
  assumes "j < length ts" "todo_id (ts ! j) = i" "\<forall>j'<j. todo_id (ts ! j') \<noteq> i"
  shows "find (\<lambda>task. todo_id task = i)
           (map (\<lambda>task. if todo_id task = i then task\<lparr>completed := True\<rparr> else task) ts)
         = Some ((ts ! j)\<lparr>completed := True\<rparr>)"
proof -
  from assms have "find (\<lambda>task. todo_id task = i) ts = Some (ts ! j)"
    by (intro find_first) simp_all
  then show ?thesis by (simp add: find_mark_id)
qed

lemma completeByTitle_none:
  assumes "\<forall>t \<in> set (todos (fst st)). \<not> candidate lc q t"
  shows "completeByTitle lc oc q st = (Inr (Failed not_found), st)"
proof -
  from assms have "find (candidate lc q) (todos (fst st)) = None"
    by (simp add: find_None_iff)
  then show ?thesis
    by (simp add: completeByTitle_def candidate_def [abs_def] Let_def)
qed

lemma completeByTitle_selected:
  assumes k: "k < length (todos s)"
    and p: "candidate lc q (todos s ! k)"
    and b: "\<forall>j<k. \<not> candidate lc q (todos s ! j)"
    and j: "j < length (todos s)" "todo_id (todos s ! j) = todo_id (todos s ! k)"
      "\<forall>j'<j. todo_id (todos s ! j') \<noteq> todo_id (todos s ! k)"
  shows "completeByTitle lc Succeeds q (s, w) =
     (Inr (Done (Some ((todos s ! j)\<lparr>completed := True\<rparr>))),
      (s\<lparr>todos := map (\<lambda>task. if todo_id task = todo_id (todos s ! k)
                                then task\<lparr>completed := True\<rparr> else task) (todos s)\<rparr>,
       w\<lparr>node := File (Denotes (payload_of
              (map (\<lambda>task. if todo_id task = todo_id (todos s ! k)
                             then task\<lparr>completed := True\<rparr> else task) (todos s)) (nextId s))),
         written := written w @ [Denotes (payload_of
              (map (\<lambda>task. if todo_id task = todo_id (todos s ! k)
                             then task\<lparr>completed := True\<rparr> else task) (todos s)) (nextId s))]\<rparr>))"
proof -
  from find_first [OF k p b] have f: "find (candidate lc q) (todos s) = Some (todos s ! k)" .
  note f' = find_mark_first [OF j]
  from f f' show ?thesis
    by (simp add: completeByTitle_def candidate_def [abs_def] Let_def saveAtomically_Succeeds)
qed

text \<open>
  C6. Claimed: for every query and store, \<open>completeByTitle\<close> completes exactly the first
  incomplete record whose title matches and returns it. The method picks that record
  and then works by its id: it marks every record carrying the id and returns the first
  of them. The store below has two records with the id \<open>todo-2\<close>; it is what \<open>add\<close>
  makes of the store that \<open>create\<close> loads from a file holding the first record and no
  \<open>nextId\<close>. The query \<open>dog\<close> picks the second record; the call completes both records and
  returns the first, whose title does not match.
\<close>

theorem completeByTitle_duplicate_id_counterexample:
  "fst (snd (add Succeeds ''Walk dog''
     (\<lparr>todos = [\<lparr>todo_id = ''todo-2'', title = ''Feed cat'', completed = False\<rparr>], nextId = 2\<rparr>,
      \<lparr>node = Absent, written = []\<rparr>)))
     = \<lparr>todos = [\<lparr>todo_id = ''todo-2'', title = ''Feed cat'', completed = False\<rparr>,
                \<lparr>todo_id = ''todo-2'', title = ''Walk dog'', completed = False\<rparr>], nextId = 3\<rparr> \<and>
   fst (completeByTitle ascii_lower Succeeds ''dog''
     (\<lparr>todos = [\<lparr>todo_id = ''todo-2'', title = ''Feed cat'', completed = False\<rparr>,
               \<lparr>todo_id = ''todo-2'', title = ''Walk dog'', completed = False\<rparr>], nextId = 3\<rparr>,
      \<lparr>node = Absent, written = []\<rparr>))
     = Inr (Done (Some \<lparr>todo_id = ''todo-2'', title = ''Feed cat'', completed = True\<rparr>)) \<and>
   todos (fst (snd (completeByTitle ascii_lower Succeeds ''dog''
     (\<lparr>todos = [\<lparr>todo_id = ''todo-2'', title = ''Feed cat'', completed = False\<rparr>,
               \<lparr>todo_id = ''todo-2'', title = ''Walk dog'', completed = False\<rparr>], nextId = 3\<rparr>,
      \<lparr>node = Absent, written = []\<rparr>))))
     = [\<lparr>todo_id = ''todo-2'', title = ''Feed cat'', completed = True\<rparr>,
        \<lparr>todo_id = ''todo-2'', title = ''Walk dog'', completed = True\<rparr>]"
  by (simp add: add_def completeByTitle_def Let_def saveAtomically_Succeeds mint_numerals
        round_double_exact ascii_lower_def ascii_lower_char_def)

text \<open>
  C6, amended. For every function taken for \<open>toLowerCase\<close>: a record is a candidate for a
  query when it is not completed and its lower-cased title contains the lower-cased
  query as a contiguous run. When every record whose title matches is completed, the
  call resolves with \<open>not_found\<close> and changes nothing, whatever the write would do:
  completed records are never selected. Otherwise the call selects the first candidate
  in display order, position \<open>k\<close>; with the write going through it marks as completed
  every record that carries the id of the selected one, writes that array with the
  unchanged counter, and returns the first record carrying that id, position \<open>j\<close>,
  completed. On a store with pairwise distinct ids \<open>j\<close> is \<open>k\<close>: exactly the selected
  record is completed and returned, no other position of the array changes, and the
  candidates left afterwards are the former candidates without the first, in the same
  order, so repeated calls with one query walk through the matching records in display
  order and end with \<open>not_found\<close>.
\<close>

theorem completeByTitle_first_open_match:
  "(candidate lc q t \<longleftrightarrow>
      \<not> completed t \<and> (\<exists>p r. lc (title t) = p @ lc q @ r)) \<and>
   ((\<forall>t \<in> set (todos s). includes_str (lc (title t)) (lc q) \<longrightarrow> completed t) \<longrightarrow>
      completeByTitle lc oc q (s, w) = (Inr (Failed not_found), (s, w))) \<and>
   (k < length (todos s) \<and> candidate lc q (todos s ! k) \<and>
    (\<forall>i<k. \<not> candidate lc q (todos s ! i)) \<and>
    j < length (todos s) \<and> todo_id (todos s ! j) = todo_id (todos s ! k) \<and>
    (\<forall>i<j. todo_id (todos s ! i) \<noteq> todo_id (todos s ! k)) \<longrightarrow>
      completeByTitle lc Succeeds q (s, w) =
        (Inr (Done (Some ((todos s ! j)\<lparr>completed := True\<rparr>))),
         (s\<lparr>todos := map (\<lambda>task. if todo_id task = todo_id (todos s ! k)
                                   then task\<lparr>completed := True\<rparr> else task) (todos s)\<rparr>,
          w\<lparr>node := File (Denotes (payload_of
                 (map (\<lambda>task. if todo_id task = todo_id (todos s ! k)
                                then task\<lparr>completed := True\<rparr> else task) (todos s)) (nextId s))),
            written := written w @ [Denotes (payload_of
                 (map (\<lambda>task. if todo_id task = todo_id (todos s ! k)
                                then task\<lparr>completed := True\<rparr> else task) (todos s)) (nextId s))]\<rparr>)) \<and>
      (distinct (map todo_id (todos s)) \<longrightarrow>
         j = k \<and>
         map (\<lambda>task. if todo_id task = todo_id (todos s ! k)
                      then task\<lparr>completed := True\<rparr> else task) (todos s)
           = (todos s)[k := (todos s ! k)\<lparr>completed := True\<rparr>] \<and>
         filter (candidate lc q) (todos s)
           = todos s ! k # filter (candidate lc q) (drop (Suc k) (todos s)) \<and>
         filter (candidate lc q) ((todos s)[k := (todos s ! k)\<lparr>completed := True\<rparr>])
           = filter (candidate lc q) (drop (Suc k) (todos s))))"
proof -
  have a: "candidate lc q t \<longleftrightarrow>
      \<not> completed t \<and> (\<exists>p r. lc (title t) = p @ lc q @ r)"
    by (simp add: candidate_def includes_str_iff)
  have b: "completeByTitle lc oc q (s, w) = (Inr (Failed not_found), (s, w))"
    if "\<forall>t \<in> set (todos s). includes_str (lc (title t)) (lc q) \<longrightarrow> completed t"
    using that by (intro completeByTitle_none) (auto simp: candidate_def)
  have d: "j = k \<and>
         map (\<lambda>task. if todo_id task = todo_id (todos s ! k)
                      then task\<lparr>completed := True\<rparr> else task) (todos s)
           = (todos s)[k := (todos s ! k)\<lparr>completed := True\<rparr>] \<and>
         filter (candidate lc q) (todos s)
           = todos s ! k # filter (candidate lc q) (drop (Suc k) (todos s)) \<and>
         filter (candidate lc q) ((todos s)[k := (todos s ! k)\<lparr>completed := True\<rparr>])
           = filter (candidate lc q) (drop (Suc k) (todos s))"
    if h: "k < length (todos s)" "candidate lc q (todos s ! k)"
      "\<forall>i<k. \<not> candidate lc q (todos s ! i)"
      "j < length (todos s)" "todo_id (todos s ! j) = todo_id (todos s ! k)"
      and dist: "distinct (map todo_id (todos s))"
  proof -
    from h(1,4,5) dist nth_eq_iff_index_eq [of "map todo_id (todos s)" j k] have "j = k"
      by simp
    moreover have x: "\<not> candidate lc q ((todos s ! k)\<lparr>completed := True\<rparr>)"
      by (simp add: candidate_def)
    moreover note filter_first [of k "todos s" "candidate lc q", OF h(1) h(2) h(3) x]
      mark_id_distinct [OF dist h(1)]
    ultimately show ?thesis by simp
  qed
  from a b d completeByTitle_selected [of k s lc q j w] show ?thesis by blast
qed

theorem completeByTitle_first_open_match_witness:
  "fst (completeByTitle ascii_lower Succeeds ''Dog''
     (\<lparr>todos = [\<lparr>todo_id = ''todo-1'', title = ''Walk dog'', completed = True\<rparr>,
               \<lparr>todo_id = ''todo-2'', title = ''Feed DOG'', completed = False\<rparr>,
               \<lparr>todo_id = ''todo-3'', title = ''dog food'', completed = False\<rparr>], nextId = 4\<rparr>,
      \<lparr>node = Absent, written = []\<rparr>))
   = Inr (Done (Some \<lparr>todo_id = ''todo-2'', title = ''Feed DOG'', completed = True\<rparr>)) \<and>
   todos (fst (snd (completeByTitle ascii_lower Succeeds ''Dog''
     (\<lparr>todos = [\<lparr>todo_id = ''todo-1'', title = ''Walk dog'', completed = True\<rparr>,
               \<lparr>todo_id = ''todo-2'', title = ''Feed DOG'', completed = False\<rparr>,
               \<lparr>todo_id = ''todo-3'', title = ''dog food'', completed = False\<rparr>], nextId = 4\<rparr>,
      \<lparr>node = Absent, written = []\<rparr>))))
   = [\<lparr>todo_id = ''todo-1'', title = ''Walk dog'', completed = True\<rparr>,
      \<lparr>todo_id = ''todo-2'', title = ''Feed DOG'', completed = True\<rparr>,
      \<lparr>todo_id = ''todo-3'', title = ''dog food'', completed = False\<rparr>] \<and>
   completeByTitle ascii_lower Succeeds ''Dog''
     (\<lparr>todos = [\<lparr>todo_id = ''todo-1'', title = ''Walk dog'', completed = True\<rparr>], nextId = 2\<rparr>,
      \<lparr>node = Absent, written = []\<rparr>)
   = (Inr (Failed not_found),
      (\<lparr>todos = [\<lparr>todo_id = ''todo-1'', title = ''Walk dog'', completed = True\<rparr>], nextId = 2\<rparr>,
       \<lparr>node = Absent, written = []\<rparr>))"
proof -
  let ?s = "\<lparr>todos = [\<lparr>todo_id = ''todo-1'', title = ''Walk dog'', completed = True\<rparr>,
               \<lparr>todo_id = ''todo-2'', title = ''Feed DOG'', completed = False\<rparr>,
               \<lparr>todo_id = ''todo-3'', title = ''dog food'', completed = False\<rparr>], nextId = 4\<rparr> :: todo service"
  let ?s2 = "\<lparr>todos = [\<lparr>todo_id = ''todo-1'', title = ''Walk dog'', completed = True\<rparr>], nextId = 2\<rparr>
               :: todo service"
  let ?w = "\<lparr>node = Absent, written = []\<rparr>"
  have k: "(1::nat) < length (todos ?s)" by simp
  have p: "candidate ascii_lower ''Dog'' (todos ?s ! 1)"
    by (simp add: candidate_def ascii_lower_def ascii_lower_char_def)
  have b: "\<forall>i<1. \<not> candidate ascii_lower ''Dog'' (todos ?s ! i)"
    by (simp add: candidate_def)
  have i: "todo_id (todos ?s ! 1) = todo_id (todos ?s ! 1)" by simp
  have f: "\<forall>i<1. todo_id (todos ?s ! i) \<noteq> todo_id (todos ?s ! 1)" by simp
  from completeByTitle_first_open_match [of ascii_lower "''Dog''" _ ?s Succeeds ?w 1 1] k p b i f
  have "completeByTitle ascii_lower Succeeds ''Dog'' (?s, ?w) =
        (Inr (Done (Some ((todos ?s ! 1)\<lparr>completed := True\<rparr>))),
         (?s\<lparr>todos := map (\<lambda>task. if todo_id task = todo_id (todos ?s ! 1)
                                   then task\<lparr>completed := True\<rparr> else task) (todos ?s)\<rparr>,
          ?w\<lparr>node := File (Denotes (payload_of
                 (map (\<lambda>task. if todo_id task = todo_id (todos ?s ! 1)
                                then task\<lparr>completed := True\<rparr> else task) (todos ?s)) (nextId ?s))),
            written := written ?w @ [Denotes (payload_of
                 (map (\<lambda>task. if todo_id task = todo_id (todos ?s ! 1)
                                then task\<lparr>completed := True\<rparr> else task) (todos ?s)) (nextId ?s))]\<rparr>))"
    by blast
  then have one: "fst (completeByTitle ascii_lower Succeeds ''Dog'' (?s, ?w))
          = Inr (Done (Some \<lparr>todo_id = ''todo-2'', title = ''Feed DOG'', completed = True\<rparr>)) \<and>
        todos (fst (snd (completeByTitle ascii_lower Succeeds ''Dog'' (?s, ?w))))
          = [\<lparr>todo_id = ''todo-1'', title = ''Walk dog'', completed = True\<rparr>,
             \<lparr>todo_id = ''todo-2'', title = ''Feed DOG'', completed = True\<rparr>,
             \<lparr>todo_id = ''todo-3'', title = ''dog food'', completed = False\<rparr>]"
    by simp
  have "\<forall>t \<in> set (todos ?s2).
          includes_str (ascii_lower (title t)) (ascii_lower ''Dog'') \<longrightarrow> completed t"
    by simp
  with completeByTitle_first_open_match [of ascii_lower "''Dog''" _ ?s2 Succeeds ?w 0 0]
  have "completeByTitle ascii_lower Succeeds ''Dog'' (?s2, ?w) = (Inr (Failed not_found), (?s2, ?w))"
    by blast
  with one show ?thesis by blast
qed

subsection \<open>Deleting by id\<close>

lemma find_id_None: "find (\<lambda>task. todo_id task = i) ts = None \<longleftrightarrow> i \<notin> todo_id ` set ts"
  by (auto simp: find_None_iff)

lemma filter_other_ids:
  assumes d: "distinct (map todo_id ts)" and k: "k < length ts"
  shows "filter (\<lambda>task. todo_id task \<noteq> todo_id (ts ! k)) ts = take k ts @ drop (Suc k) ts"
proof -
  have ts: "ts = take k ts @ ts ! k # drop (Suc k) ts"
    using k by (rule id_take_nth_drop)
  with d have "distinct (map todo_id (take k ts @ ts ! k # drop (Suc k) ts))" by simp
  then have n: "todo_id (ts ! k) \<notin> todo_id ` set (take k ts)"
    "todo_id (ts ! k) \<notin> todo_id ` set (drop (Suc k) ts)"
    by auto
  from n(1) have "\<forall>x \<in> set (take k ts). todo_id x \<noteq> todo_id (ts ! k)"
    by (metis imageI)
  then have a: "filter (\<lambda>task. todo_id task \<noteq> todo_id (ts ! k)) (take k ts) = take k ts"
    by (rule filter_True)
  from n(2) have "\<forall>x \<in> set (drop (Suc k) ts). todo_id x \<noteq> todo_id (ts ! k)"
    by (metis imageI)
  then have b: "filter (\<lambda>task. todo_id task \<noteq> todo_id (ts ! k)) (drop (Suc k) ts) = drop (Suc k) ts"
    by (rule filter_True)
  have "filter (\<lambda>task. todo_id task \<noteq> todo_id (ts ! k)) ts
        = filter (\<lambda>task. todo_id task \<noteq> todo_id (ts ! k)) (take k ts @ ts ! k # drop (Suc k) ts)"
    using ts by simp
  also have "\<dots> = take k ts @ drop (Suc k) ts"
    using a b by simp
  finally show ?thesis .
qed

lemma deleteById_absent:
  assumes "i \<notin> todo_id ` set (todos (fst st))"
  shows "deleteById oc i st = (Inr (Failed not_found), st)"
  using assms by (simp add: deleteById_def find_id_None [symmetric])

lemma deleteById_first:
  assumes "k < length (todos s)" "todo_id (todos s ! k) = i" "\<forall>j<k. todo_id (todos s ! j) \<noteq> i"
  shows "deleteById Succeeds i (s, w) =
     (Inr (Done (Some (todos s ! k))),
      (s\<lparr>todos := filter (\<lambda>task. todo_id task \<noteq> i) (todos s)\<rparr>,
       w\<lparr>node := File (Denotes (payload_of (filter (\<lambda>task. todo_id task \<noteq> i) (todos s)) (nextId s))),
         written := written w @
           [Denotes (payload_of (filter (\<lambda>task. todo_id task \<noteq> i) (todos s)) (nextId s))]\<rparr>))"
proof -
  from assms have "find (\<lambda>task. todo_id task = i) (todos s) = Some (todos s ! k)"
    by (intro find_first) simp_all
  then show ?thesis
    by (simp add: deleteById_def Let_def saveAtomically_Succeeds)
qed

text \<open>
  C7. Claimed: for every id present in the store, \<open>deleteById\<close> removes exactly that
  record. The method removes every record that carries the id. On the store below,
  which \<open>add\<close> makes of a store loaded from a file holding its first record and no
  \<open>nextId\<close>, deleting \<open>todo-2\<close> removes two records.
\<close>

theorem deleteById_duplicate_id_counterexample:
  "fst (snd (add Succeeds ''Walk dog''
     (\<lparr>todos = [\<lparr>todo_id = ''todo-2'', title = ''Feed cat'', completed = False\<rparr>], nextId = 2\<rparr>,
      \<lparr>node = Absent, written = []\<rparr>)))
     = \<lparr>todos = [\<lparr>todo_id = ''todo-2'', title = ''Feed cat'', completed = False\<rparr>,
                \<lparr>todo_id = ''todo-2'', title = ''Walk dog'', completed = False\<rparr>], nextId = 3\<rparr> \<and>
   fst (deleteById Succeeds ''todo-2''
     (\<lparr>todos = [\<lparr>todo_id = ''todo-2'', title = ''Feed cat'', completed = False\<rparr>,
               \<lparr>todo_id = ''todo-2'', title = ''Walk dog'', completed = False\<rparr>], nextId = 3\<rparr>,
      \<lparr>node = Absent, written = []\<rparr>))
     = Inr (Done (Some \<lparr>todo_id = ''todo-2'', title = ''Feed cat'', completed = False\<rparr>)) \<and>
   todos (fst (snd (deleteById Succeeds ''todo-2''
     (\<lparr>todos = [\<lparr>todo_id = ''todo-2'', title = ''Feed cat'', completed = False\<rparr>,
               \<lparr>todo_id = ''todo-2'', title = ''Walk dog'', completed = False\<rparr>], nextId = 3\<rparr>,
      \<lparr>node = Absent, written = []\<rparr>))))
     = []"
  by (simp add: add_def deleteById_def Let_def saveAtomically_Succeeds mint_numerals
        round_double_exact)

text \<open>
  C7, amended. For an id that no record carries, \<open>deleteById\<close> resolves with \<open>not_found\<close>
  and leaves object and world as they were, whatever the write would do. For an id that
  some record carries, with the write going through, the call returns the first record
  carrying the id, as it was before the call; the new array consists of the records
  that do not carry the id, the same records in the same order, and is written with the
  unchanged counter; no record of it carries the id. On a store with pairwise distinct
  ids exactly one record is removed: the new array is the old one with the position of
  that record cut out.
\<close>

theorem deleteById_removes_one:
  "(i \<notin> todo_id ` set (todos s) \<longrightarrow>
      deleteById oc i (s, w) = (Inr (Failed not_found), (s, w))) \<and>
   (k < length (todos s) \<and> todo_id (todos s ! k) = i \<and> (\<forall>j<k. todo_id (todos s ! j) \<noteq> i) \<longrightarrow>
      deleteById Succeeds i (s, w) =
        (Inr (Done (Some (todos s ! k))),
         (s\<lparr>todos := filter (\<lambda>task. todo_id task \<noteq> i) (todos s)\<rparr>,
          w\<lparr>node := File (Denotes (payload_of (filter (\<lambda>task. todo_id task \<noteq> i) (todos s)) (nextId s))),
            written := written w @
              [Denotes (payload_of (filter (\<lambda>task. todo_id task \<noteq> i) (todos s)) (nextId s))]\<rparr>)) \<and>
      i \<notin> todo_id ` set (filter (\<lambda>task. todo_id task \<noteq> i) (todos s)) \<and>
      (distinct (map todo_id (todos s)) \<longrightarrow>
         filter (\<lambda>task. todo_id task \<noteq> i) (todos s) = take k (todos s) @ drop (Suc k) (todos s)))"
proof -
  have a: "deleteById oc i (s, w) = (Inr (Failed not_found), (s, w))"
    if "i \<notin> todo_id ` set (todos s)"
    using that by (intro deleteById_absent) simp
  have b: "i \<notin> todo_id ` set (filter (\<lambda>task. todo_id task \<noteq> i) (todos s))"
    by auto
  have c: "filter (\<lambda>task. todo_id task \<noteq> i) (todos s) = take k (todos s) @ drop (Suc k) (todos s)"
    if "k < length (todos s)" "todo_id (todos s ! k) = i" "distinct (map todo_id (todos s))"
    using filter_other_ids [OF that(3) that(1)] that(2) by simp
  from a b c deleteById_first [of k s i w] show ?thesis by blast
qed

theorem deleteById_removes_one_witness:
  "fst (deleteById Succeeds ''todo-2''
     (\<lparr>todos = [\<lparr>todo_id = ''todo-1'', title = ''a'', completed = False\<rparr>,
               \<lparr>todo_id = ''todo-2'', title = ''b'', completed = True\<rparr>,
               \<lparr>todo_id = ''todo-3'', title = ''c'', completed = False\<rparr>], nextId = 4\<rparr>,
      \<lparr>node = Absent, written = []\<rparr>))
   = Inr (Done (Some \<lparr>todo_id = ''todo-2'', title = ''b'', completed = True\<rparr>)) \<and>
   todos (fst (snd (deleteById Succeeds ''todo-2''
     (\<lparr>todos = [\<lparr>todo_id = ''todo-1'', title = ''a'', completed = False\<rparr>,
               \<lparr>todo_id = ''todo-2'', title = ''b'', completed = True\<rparr>,
               \<lparr>todo_id = ''todo-3'', title = ''c'', completed = False\<rparr>], nextId = 4\<rparr>,
      \<lparr>node = Absent, written = []\<rparr>))))
   = [\<lparr>todo_id = ''todo-1'', title = ''a'', completed = False\<rparr>,
      \<lparr>todo_id = ''todo-3'', title = ''c'', completed = False\<rparr>] \<and>
   fst (deleteById Succeeds ''todo-9''
     (\<lparr>todos = [\<lparr>todo_id = ''todo-1'', title = ''a'', completed = False\<rparr>,
               \<lparr>todo_id = ''todo-2'', title = ''b'', completed = True\<rparr>,
               \<lparr>todo_id = ''todo-3'', title = ''c'', completed = False\<rparr>], nextId = 4\<rparr>,
      \<lparr>node = Absent, written = []\<rparr>))
   = Inr (Failed not_found)"
proof -
  let ?s = "\<lparr>todos = [\<lparr>todo_id = ''todo-1'', title = ''a'', completed = False\<rparr>,
               \<lparr>todo_id = ''todo-2'', title = ''b'', completed = True\<rparr>,
               \<lparr>todo_id = ''todo-3'', title = ''c'', completed = False\<rparr>], nextId = 4\<rparr> :: todo service"
  let ?w = "\<lparr>node = Absent, written = []\<rparr>"
  have h: "(1::nat) < length (todos ?s) \<and> todo_id (todos ?s ! 1) = ''todo-2'' \<and>
           (\<forall>j<1. todo_id (todos ?s ! j) \<noteq> ''todo-2'')"
    by simp
  with deleteById_removes_one [of "''todo-2''" ?s Succeeds ?w 1]
  have "deleteById Succeeds ''todo-2'' (?s, ?w) =
        (Inr (Done (Some (todos ?s ! 1))),
         (?s\<lparr>todos := filter (\<lambda>task. todo_id task \<noteq> ''todo-2'') (todos ?s)\<rparr>,
          ?w\<lparr>node := File (Denotes (payload_of
                  (filter (\<lambda>task. todo_id task \<noteq> ''todo-2'') (todos ?s)) (nextId ?s))),
            written := written ?w @
              [Denotes (payload_of (filter (\<lambda>task. todo_id task \<noteq> ''todo-2'') (todos ?s)) (nextId ?s))]\<rparr>))"
    by blast
  then have one: "fst (deleteById Succeeds ''todo-2'' (?s, ?w))
          = Inr (Done (Some \<lparr>todo_id = ''todo-2'', title = ''b'', completed = True\<rparr>)) \<and>
        todos (fst (snd (deleteById Succeeds ''todo-2'' (?s, ?w))))
          = [\<lparr>todo_id = ''todo-1'', title = ''a'', completed = False\<rparr>,
             \<lparr>todo_id = ''todo-3'', title = ''c'', completed = False\<rparr>]"
    by simp
  have "''todo-9'' \<notin> todo_id ` set (todos ?s)" by simp
  with deleteById_removes_one [of "''todo-9''" ?s Succeeds ?w 0]
  have "deleteById Succeeds ''todo-9'' (?s, ?w) = (Inr (Failed not_found), (?s, ?w))" by blast
  then have "fst (deleteById Succeeds ''todo-9'' (?s, ?w)) = Inr (Failed not_found)" by simp
  with one show ?thesis by blast
qed

subsection \<open>Deleting the completed records\<close>

lemma deleteCompleted_nothing:
  assumes "\<forall>t \<in> set (todos (fst st)). \<not> completed t"
  shows "deleteCompleted oc st = (Inr (Removed [] (todos (fst st))), st)"
proof -
  from assms have "filter (\<lambda>task. completed task) (todos (fst st)) = []"
    by (simp add: filter_empty_conv)
  then show ?thesis by (simp add: deleteCompleted_def)
qed

lemma deleteCompleted_some:
  assumes "\<exists>t \<in> set (todos s). completed t"
  shows "deleteCompleted Succeeds (s, w) =
     (Inr (Removed (filter (\<lambda>task. completed task) (todos s)) (filter (\<lambda>task. \<not> completed task) (todos s))),
      (s\<lparr>todos := filter (\<lambda>task. \<not> completed task) (todos s)\<rparr>,
       w\<lparr>node := File (Denotes (payload_of (filter (\<lambda>task. \<not> completed task) (todos s)) (nextId s))),
         written := written w @
           [Denotes (payload_of (filter (\<lambda>task. \<not> completed task) (todos s)) (nextId s))]\<rparr>))"
proof -
  from assms have "filter (\<lambda>task. completed task) (todos s) \<noteq> []"
    by (simp add: filter_empty_conv)
  then show ?thesis
    by (simp add: deleteCompleted_def Let_def saveAtomically_Succeeds)
qed

text \<open>
  C8. With the write going through, \<open>deleteCompleted\<close> resolves, on every store, with the
  records that were completed at the time of the call (in display order, possibly none)
  as the removed ones; the array afterwards consists of the records that were not
  completed, in their old order, so none of its records is completed; the counter is
  unchanged; and \<open>writeFile\<close> is called once, with the new array and the unchanged
  counter, when at least one record was completed, and not at all otherwise. When no
  record is completed the call resolves with no removed records and changes nothing,
  whatever the environment would have answered to a write.
\<close>

theorem deleteCompleted_removes_completed:
  "fst (deleteCompleted Succeeds st)
     = Inr (Removed (filter (\<lambda>task. completed task) (todos (fst st)))
                    (filter (\<lambda>task. \<not> completed task) (todos (fst st)))) \<and>
   todos (fst (snd (deleteCompleted Succeeds st))) = filter (\<lambda>task. \<not> completed task) (todos (fst st)) \<and>
   (\<forall>t \<in> set (todos (fst (snd (deleteCompleted Succeeds st)))). \<not> completed t) \<and>
   nextId (fst (snd (deleteCompleted Succeeds st))) = nextId (fst st) \<and>
   written (snd (snd (deleteCompleted Succeeds st)))
     = written (snd st) @
       (if \<exists>t \<in> set (todos (fst st)). completed t
        then [Denotes (payload_of (filter (\<lambda>task. \<not> completed task) (todos (fst st))) (nextId (fst st)))]
        else []) \<and>
   ((\<forall>t \<in> set (todos (fst st)). \<not> completed t) \<longrightarrow>
      deleteCompleted oc st = (Inr (Removed [] (todos (fst st))), st))"
proof (cases "\<exists>t \<in> set (todos (fst st)). completed t")
  case True
  obtain s w where st: "st = (s, w)" by (cases st)
  from True have "\<exists>t \<in> set (todos s). completed t" by (simp add: st)
  from deleteCompleted_some [OF this, of w] True show ?thesis
    by (auto simp: st)
next
  case False
  then have n: "\<forall>t \<in> set (todos (fst st)). \<not> completed t" by blast
  then have "filter (\<lambda>task. completed task) (todos (fst st)) = []"
    "filter (\<lambda>task. \<not> completed task) (todos (fst st)) = todos (fst st)"
    by (simp_all add: filter_empty_conv)
  with deleteCompleted_nothing [OF n, of Succeeds] deleteCompleted_nothing [OF n, of oc] n
  show ?thesis by simp
qed

theorem deleteCompleted_removes_completed_witness:
  "fst (deleteCompleted Succeeds
     (\<lparr>todos = [\<lparr>todo_id = ''todo-1'', title = ''Buy milk'', completed = True\<rparr>,
               \<lparr>todo_id = ''todo-2'', title = ''Walk dog'', completed = False\<rparr>,
               \<lparr>todo_id = ''todo-3'', title = ''Call mum'', completed = True\<rparr>], nextId = 4\<rparr>,
      \<lparr>node = Absent, written = []\<rparr>))
   = Inr (Removed [\<lparr>todo_id = ''todo-1'', title = ''Buy milk'', completed = True\<rparr>,
                   \<lparr>todo_id = ''todo-3'', title = ''Call mum'', completed = True\<rparr>]
                  [\<lparr>todo_id = ''todo-2'', title = ''Walk dog'', completed = False\<rparr>]) \<and>
   fst (snd (deleteCompleted Succeeds
     (\<lparr>todos = [\<lparr>todo_id = ''todo-1'', title = ''Buy milk'', completed = True\<rparr>,
               \<lparr>todo_id = ''todo-2'', title = ''Walk dog'', completed = False\<rparr>,
               \<lparr>todo_id = ''todo-3'', title = ''Call mum'', completed = True\<rparr>], nextId = 4\<rparr>,
      \<lparr>node = Absent, written = []\<rparr>)))
   = \<lparr>todos = [\<lparr>todo_id = ''todo-2'', title = ''Walk dog'', completed = False\<rparr>], nextId = 4\<rparr> \<and>
   written (snd (snd (deleteCompleted Succeeds
     (\<lparr>todos = [\<lparr>todo_id = ''todo-1'', title = ''Buy milk'', completed = True\<rparr>,
               \<lparr>todo_id = ''todo-2'', title = ''Walk dog'', completed = False\<rparr>,
               \<lparr>todo_id = ''todo-3'', title = ''Call mum'', completed = True\<rparr>], nextId = 4\<rparr>,
      \<lparr>node = Absent, written = []\<rparr>))))
   = [Denotes (payload_of [\<lparr>todo_id = ''todo-2'', title = ''Walk dog'', completed = False\<rparr>] 4)] \<and>
   deleteCompleted (Fails EACCES Unreadable)
     (\<lparr>todos = [\<lparr>todo_id = ''todo-2'', title = ''Walk dog'', completed = False\<rparr>], nextId = 4\<rparr>,
      \<lparr>node = Absent, written = []\<rparr>)
   = (Inr (Removed [] [\<lparr>todo_id = ''todo-2'', title = ''Walk dog'', completed = False\<rparr>]),
      (\<lparr>todos = [\<lparr>todo_id = ''todo-2'', title = ''Walk dog'', completed = False\<rparr>], nextId = 4\<rparr>,
       \<lparr>node = Absent, written = []\<rparr>))"
proof -
  let ?st = "(\<lparr>todos = [\<lparr>todo_id = ''todo-1'', title = ''Buy milk'', completed = True\<rparr>,
               \<lparr>todo_id = ''todo-2'', title = ''Walk dog'', completed = False\<rparr>,
               \<lparr>todo_id = ''todo-3'', title = ''Call mum'', completed = True\<rparr>], nextId = 4\<rparr>,
      \<lparr>node = Absent, written = []\<rparr>) :: state"
  let ?st2 = "(\<lparr>todos = [\<lparr>todo_id = ''todo-2'', title = ''Walk dog'', completed = False\<rparr>], nextId = 4\<rparr>,
      \<lparr>node = Absent, written = []\<rparr>) :: state"
  from deleteCompleted_removes_completed [of ?st Succeeds]
  have one: "fst (deleteCompleted Succeeds ?st)
       = Inr (Removed [\<lparr>todo_id = ''todo-1'', title = ''Buy milk'', completed = True\<rparr>,
                       \<lparr>todo_id = ''todo-3'', title = ''Call mum'', completed = True\<rparr>]
                      [\<lparr>todo_id = ''todo-2'', title = ''Walk dog'', completed = False\<rparr>]) \<and>
     todos (fst (snd (deleteCompleted Succeeds ?st)))
       = [\<lparr>todo_id = ''todo-2'', title = ''Walk dog'', completed = False\<rparr>] \<and>
     nextId (fst (snd (deleteCompleted Succeeds ?st))) = 4 \<and>
     written (snd (snd (deleteCompleted Succeeds ?st)))
       = [Denotes (payload_of [\<lparr>todo_id = ''todo-2'', title = ''Walk dog'', completed = False\<rparr>] 4)]"
    by simp
  then have s: "fst (snd (deleteCompleted Succeeds ?st))
       = \<lparr>todos = [\<lparr>todo_id = ''todo-2'', title = ''Walk dog'', completed = False\<rparr>], nextId = 4\<rparr>"
    by (cases "fst (snd (deleteCompleted Succeeds ?st))") simp
  have "\<forall>t \<in> set (todos (fst ?st2)). \<not> completed t" by simp
  with deleteCompleted_removes_completed [of ?st2 "Fails EACCES Unreadable"]
  have "deleteCompleted (Fails EACCES Unreadable) ?st2 = (Inr (Removed [] (todos (fst ?st2))), ?st2)"
    by blast
  with one s show ?thesis by simp
qed


subsection \<open>Saving and loading again\<close>

lemma todo_of_json_of_todo: "todo_of_json (json_of_todo t) = Some t"
  by (simp add: todo_of_json_def json_of_todo_def)

lemma those_todo_of_json: "those (map (todo_of_json \<circ> json_of_todo) ts) = Some ts"
  by (induction ts) (simp_all add: todo_of_json_of_todo)

lemma typed_json: "typed \<lparr>todos = map json_of_todo (todos s), nextId = nextId s\<rparr> = Some s"
  by (cases s) (simp add: typed_def those_todo_of_json)

lemma load_payload:
  "node w = File (Denotes (payload_of ts n)) \<Longrightarrow>
     load w = Inr \<lparr>todos = map json_of_todo ts, nextId = n\<rparr>"
  by (simp add: load_File payload_of_def Number_isInteger_def Let_def)

text \<open>
  C9. Round trip. Saving any array of todos with the store's counter, the write going
  through, and then running \<open>create\<close> on the file gives a store whose array is the saved
  one, element by element as JSON, and whose counter is the saved one; read back as
  todo records it is the store in memory. \<open>save\<close> is the case of saving the store's
  own array.
\<close>

theorem save_then_create_roundtrip:
  "\<exists>w' svc.
     saveAtomically Succeeds ts (s, w) = (Inr (), (s\<lparr>todos := ts\<rparr>, w')) \<and>
     create om ow w' = (Inr svc, w') \<and>
     todos svc = map json_of_todo ts \<and>
     nextId svc = nextId s \<and>
     typed svc = Some (s\<lparr>todos := ts\<rparr>) \<and>
     (ts = todos s \<longrightarrow> save Succeeds (s, w) = (Inr (), (s, w')))"
proof -
  let ?w' = "w\<lparr>node := File (Denotes (payload_of ts (nextId s))),
               written := written w @ [Denotes (payload_of ts (nextId s))]\<rparr>"
  let ?svc = "\<lparr>todos = map json_of_todo ts, nextId = nextId s\<rparr>"
  have a: "saveAtomically Succeeds ts (s, w) = (Inr (), (s\<lparr>todos := ts\<rparr>, ?w'))"
    by (rule saveAtomically_Succeeds)
  have "load ?w' = Inr ?svc" by (rule load_payload) simp
  then have b: "create om ow ?w' = (Inr ?svc, ?w')" by (simp add: create_def)
  have c: "typed ?svc = Some (s\<lparr>todos := ts\<rparr>)"
    using typed_json [of "s\<lparr>todos := ts\<rparr>"] by simp
  have d: "ts = todos s \<longrightarrow> save Succeeds (s, w) = (Inr (), (s, ?w'))"
    by (simp add: save_def saveAtomically_Succeeds)
  from a b c d show ?thesis
    by (intro exI [of _ ?w'] exI [of _ ?svc]) simp
qed

theorem save_then_create_roundtrip_witness:
  "fst (create Succeeds Succeeds
     (snd (snd (save Succeeds
        (\<lparr>todos = [\<lparr>todo_id = ''todo-1'', title = ''Buy milk'', completed = True\<rparr>,
                  \<lparr>todo_id = ''todo-4'', title = ''Walk dog'', completed = False\<rparr>], nextId = 7\<rparr>,
         \<lparr>node = Absent, written = []\<rparr>)))))
   = Inr \<lparr>todos = [json_of_todo \<lparr>todo_id = ''todo-1'', title = ''Buy milk'', completed = True\<rparr>,
                   json_of_todo \<lparr>todo_id = ''todo-4'', title = ''Walk dog'', completed = False\<rparr>],
          nextId = 7\<rparr>"
proof -
  let ?s = "\<lparr>todos = [\<lparr>todo_id = ''todo-1'', title = ''Buy milk'', completed = True\<rparr>,
                  \<lparr>todo_id = ''todo-4'', title = ''Walk dog'', completed = False\<rparr>], nextId = 7\<rparr> :: todo service"
  let ?w = "\<lparr>node = Absent, written = []\<rparr>"
  from save_then_create_roundtrip [of "todos ?s" ?s ?w Succeeds Succeeds]
  obtain w' svc where
    h: "save Succeeds (?s, ?w) = (Inr (), (?s, w'))" "create Succeeds Succeeds w' = (Inr svc, w')"
       "todos svc = map json_of_todo (todos ?s)" "nextId svc = nextId ?s"
    by blast
  from h(3,4) have "svc = \<lparr>todos = map json_of_todo (todos ?s), nextId = 7\<rparr>"
    by (cases svc) simp
  with h(1,2) show ?thesis by simp
qed


subsection \<open>Adding to a loaded store\<close>

lemma add_Succeeds_todos:
  "todos (fst (snd (add Succeeds ttl (s, w))))
     = todos s @ [\<lparr>todo_id = mint (nextId s), title = ttl, completed = False\<rparr>]"
  by (simp add: add_def Let_def saveAtomically_Succeeds)

lemma add_preserves_distinct:
  assumes d: "distinct (map todo_id (todos s))"
    and c: "\<forall>t \<in> set (todos s). \<forall>n. todo_id t = mint n \<longrightarrow> n < nextId s"
  shows "distinct (map todo_id (todos (fst (snd (add Succeeds ttl (s, w))))))"
proof -
  have "mint (nextId s) \<notin> todo_id ` set (todos s)"
  proof
    assume "mint (nextId s) \<in> todo_id ` set (todos s)"
    then obtain t where "t \<in> set (todos s)" "todo_id t = mint (nextId s)" by auto
    with c have "nextId s < nextId s" by blast
    then show False by simp
  qed
  with d show ?thesis
    by (simp add: add_Succeeds_todos)
qed

lemma add_preserves_counter_above:
  assumes c: "\<forall>t \<in> set (todos s). \<forall>n. todo_id t = mint n \<longrightarrow> n < nextId s"
    and lo: "- (2 ^ 53) \<le> nextId s" and hi: "nextId s < 2 ^ 53"
  shows "\<forall>t \<in> set (todos (fst (snd (add Succeeds ttl (s, w))))).
           \<forall>n. todo_id t = mint n \<longrightarrow> n < nextId (fst (snd (add Succeeds ttl (s, w))))"
proof (intro ballI allI impI)
  fix t n
  assume t: "t \<in> set (todos (fst (snd (add Succeeds ttl (s, w)))))" and n: "todo_id t = mint n"
  from lo hi have "round_double (nextId s + 1) = nextId s + 1" by (rule increment_exact)
  then have nx: "nextId (fst (snd (add Succeeds ttl (s, w)))) = nextId s + 1"
    using add_nextId [of Succeeds ttl "(s, w)"] by simp
  from lo hi have r: "\<bar>nextId s\<bar> \<le> 2 ^ 53" by simp
  from t consider "t \<in> set (todos s)" | "t = \<lparr>todo_id = mint (nextId s), title = ttl, completed = False\<rparr>"
    by (auto simp: add_Succeeds_todos)
  then show "n < nextId (fst (snd (add Succeeds ttl (s, w))))"
  proof cases
    case 1
    with c n have "n < nextId s" by blast
    with nx show ?thesis by simp
  next
    case 2
    with n have "mint n = mint (nextId s)" by simp
    with mint_inj [OF r, of n] have "n = nextId s" by simp
    with nx show ?thesis by simp
  qed
qed

text \<open>
  C10. \<open>add\<close> keeps the ids pairwise distinct when the counter is strictly greater than
  the number \<open>n\<close> of every id of the form \<open>todo-n\<close> in the array; and then, as long as the
  counter is where doubles count exactly, it is so again afterwards. \<open>create\<close> does not
  establish that: on a file holding one todo with id \<open>todo-5\<close> and no \<open>nextId\<close>, it
  returns a store with that todo and the counter \<open>1 + 1 = 2\<close>, whose ids are distinct;
  the next four \<open>add\<close>s on it return the ids \<open>todo-2\<close>, \<open>todo-3\<close>, \<open>todo-4\<close> and \<open>todo-5\<close>,
  the last of which the array already holds, so the array ends with two records of id
  \<open>todo-5\<close>.
\<close>

theorem add_distinct_ids_need_counter_above:
  "(distinct (map todo_id (todos s)) \<and>
    (\<forall>t \<in> set (todos s). \<forall>n. todo_id t = mint n \<longrightarrow> n < nextId s) \<longrightarrow>
      distinct (map todo_id (todos (fst (snd (add Succeeds ttl (s, w))))))) \<and>
   ((\<forall>t \<in> set (todos s). \<forall>n. todo_id t = mint n \<longrightarrow> n < nextId s) \<and>
    - (2 ^ 53) \<le> nextId s \<and> nextId s < 2 ^ 53 \<longrightarrow>
      (\<forall>t \<in> set (todos (fst (snd (add Succeeds ttl (s, w))))).
         \<forall>n. todo_id t = mint n \<longrightarrow> n < nextId (fst (snd (add Succeeds ttl (s, w)))))) \<and>
   create om ow
      \<lparr>node = File (Denotes (JObj [(''todos'',
          JArr [JObj [(''id'', JStr ''todo-5''), (''title'', JStr ''Old''), (''completed'', JBool False)]])])),
       written = []\<rparr>
     = (Inr \<lparr>todos = [JObj [(''id'', JStr ''todo-5''), (''title'', JStr ''Old''), (''completed'', JBool False)]],
             nextId = 2\<rparr>,
        \<lparr>node = File (Denotes (JObj [(''todos'',
          JArr [JObj [(''id'', JStr ''todo-5''), (''title'', JStr ''Old''), (''completed'', JBool False)]])])),
         written = []\<rparr>) \<and>
   typed \<lparr>todos = [JObj [(''id'', JStr ''todo-5''), (''title'', JStr ''Old''), (''completed'', JBool False)]],
          nextId = 2\<rparr>
     = Some \<lparr>todos = [\<lparr>todo_id = ''todo-5'', title = ''Old'', completed = False\<rparr>], nextId = 2\<rparr> \<and>
   map (todo_id \<circ> snd)
     (fst (run lc [(Succeeds, Add ''a''), (Succeeds, Add ''b''), (Succeeds, Add ''c''), (Succeeds, Add ''d'')]
        (\<lparr>todos = [\<lparr>todo_id = ''todo-5'', title = ''Old'', completed = False\<rparr>], nextId = 2\<rparr>, w)))
     = [''todo-2'', ''todo-3'', ''todo-4'', ''todo-5''] \<and>
   map todo_id (todos (fst (snd
     (run lc [(Succeeds, Add ''a''), (Succeeds, Add ''b''), (Succeeds, Add ''c''), (Succeeds, Add ''d'')]
        (\<lparr>todos = [\<lparr>todo_id = ''todo-5'', title = ''Old'', completed = False\<rparr>], nextId = 2\<rparr>, w)))))
     = [''todo-5'', ''todo-2'', ''todo-3'', ''todo-4'', ''todo-5'']"
proof -
  let ?j = "JObj [(''id'', JStr ''todo-5''), (''title'', JStr ''Old''), (''completed'', JBool False)]"
  let ?w5 = "\<lparr>node = File (Denotes (JObj [(''todos'', JArr [?j])])), written = []\<rparr>"
  let ?s5 = "\<lparr>todos = [\<lparr>todo_id = ''todo-5'', title = ''Old'', completed = False\<rparr>], nextId = 2\<rparr> :: todo service"
  let ?cs = "[(Succeeds, Add ''a''), (Succeeds, Add ''b''), (Succeeds, Add ''c''), (Succeeds, Add ''d'')]"
  have a: "distinct (map todo_id (todos s)) \<and>
    (\<forall>t \<in> set (todos s). \<forall>n. todo_id t = mint n \<longrightarrow> n < nextId s) \<longrightarrow>
      distinct (map todo_id (todos (fst (snd (add Succeeds ttl (s, w))))))"
    using add_preserves_distinct [of s ttl w] by blast
  have a': "(\<forall>t \<in> set (todos s). \<forall>n. todo_id t = mint n \<longrightarrow> n < nextId s) \<and>
    - (2 ^ 53) \<le> nextId s \<and> nextId s < 2 ^ 53 \<longrightarrow>
      (\<forall>t \<in> set (todos (fst (snd (add Succeeds ttl (s, w))))).
         \<forall>n. todo_id t = mint n \<longrightarrow> n < nextId (fst (snd (add Succeeds ttl (s, w)))))"
    using add_preserves_counter_above [of s ttl w] by blast
  have "load ?w5 = Inr \<lparr>todos = [?j], nextId = 2\<rparr>"
    by (simp add: load_File Number_isInteger_def Let_def)
  then have b: "create om ow ?w5 = (Inr \<lparr>todos = [?j], nextId = 2\<rparr>, ?w5)"
    by (simp add: create_def)
  have c: "typed \<lparr>todos = [?j], nextId = 2\<rparr> = Some ?s5"
    by (simp add: typed_def todo_of_json_def)
  have d: "map (todo_id \<circ> snd) (fst (run lc ?cs (?s5, w))) = [''todo-2'', ''todo-3'', ''todo-4'', ''todo-5'']"
    by (simp add: add_def Let_def saveAtomically_Succeeds mint_numerals round_double_exact)
  have e: "map todo_id (todos (fst (snd (run lc ?cs (?s5, w)))))
             = [''todo-5'', ''todo-2'', ''todo-3'', ''todo-4'', ''todo-5'']"
    by (simp add: add_def Let_def saveAtomically_Succeeds mint_numerals round_double_exact)
  from a a' b c d e show ?thesis by blast
qed

theorem add_distinct_ids_need_counter_above_witness:
  "distinct (map todo_id (todos (fst (snd (add Succeeds ''Walk dog''
      (\<lparr>todos = [\<lparr>todo_id = ''todo-1'', title = ''Buy milk'', completed = False\<rparr>], nextId = 2\<rparr>,
       \<lparr>node = Absent, written = []\<rparr>)))))) \<and>
   map todo_id (todos (fst (snd (add Succeeds ''Walk dog''
      (\<lparr>todos = [\<lparr>todo_id = ''todo-1'', title = ''Buy milk'', completed = False\<rparr>], nextId = 2\<rparr>,
       \<lparr>node = Absent, written = []\<rparr>))))) = [''todo-1'', ''todo-2'']"
proof -
  let ?s = "\<lparr>todos = [\<lparr>todo_id = ''todo-1'', title = ''Buy milk'', completed = False\<rparr>], nextId = 2\<rparr> :: todo service"
  let ?w = "\<lparr>node = Absent, written = []\<rparr>"
  have d: "distinct (map todo_id (todos ?s))" by simp
  have one: "\<bar>1::int\<bar> \<le> 2 ^ 53" by simp
  have c: "\<forall>t \<in> set (todos ?s). \<forall>n. todo_id t = mint n \<longrightarrow> n < nextId ?s"
  proof (intro ballI allI impI)
    fix t n
    assume "t \<in> set (todos ?s)" and "todo_id t = mint n"
    then have "mint n = mint 1" by (simp add: mint_numerals)
    with mint_inj [OF one, of n] have "n = 1" by simp
    then show "n < nextId ?s" by simp
  qed
  from add_distinct_ids_need_counter_above [of ?s "''Walk dog''" ?w Succeeds Succeeds ascii_lower] d c
  have "distinct (map todo_id (todos (fst (snd (add Succeeds ''Walk dog'' (?s, ?w))))))"
    by blast
  moreover have "map todo_id (todos (fst (snd (add Succeeds ''Walk dog'' (?s, ?w))))) = [''todo-1'', ''todo-2'']"
    by (simp add: add_Succeeds_todos mint_numerals)
  ultimately show ?thesis by blast
qed

end
